theory Spec2Isabelle
  imports Main "HOL-Library.Sublist"
begin

section \<open>Python values, exceptions and dictionaries\<close>

text \<open>
  The scraper builds plain Python data: \<open>None\<close>, strings, lists and dictionaries with
  string keys. A dictionary keeps its keys in insertion order, so it is an association
  list; the values built by the program are trees (every dict and list literal is a
  fresh object that is stored in exactly one place), so an in-place update of a nested
  object is the update of that position of the tree.
\<close>

datatype pyval =
    PNone
  | PStr string
  | PList "pyval list"
  | PDict "(string \<times> pyval) list"

datatype exn =
    NoSuchElementException
  | TimeoutException
  | WebDriverException
  | TypeError
  | KeyError
  | AttributeError

type_synonym dict = "(string \<times> pyval) list"

definition bind_exn :: "exn + 'a \<Rightarrow> ('a \<Rightarrow> exn + 'b) \<Rightarrow> exn + 'b" where
  "bind_exn m f = (case m of Inl e \<Rightarrow> Inl e | Inr x \<Rightarrow> f x)"

text \<open>\<open>d[k] = v\<close>: an existing key keeps its position, a new key goes to the end.\<close>

fun dict_set :: "string \<Rightarrow> pyval \<Rightarrow> dict \<Rightarrow> dict" where
  "dict_set k v [] = [(k, v)]"
| "dict_set k v ((k', v') # d) =
     (if k' = k then (k, v) # d else (k', v') # dict_set k v d)"

definition dict_keys :: "dict \<Rightarrow> string list" where
  "dict_keys d = map fst d"

text \<open>\<open>d.pop(k)\<close>: the value and the dictionary without the key, or \<open>KeyError\<close>.\<close>

definition dict_pop :: "string \<Rightarrow> dict \<Rightarrow> exn + (pyval \<times> dict)" where
  "dict_pop k d =
     (case map_of d k of
        None \<Rightarrow> Inl KeyError
      | Some v \<Rightarrow> Inr (v, filter (\<lambda>kv. fst kv \<noteq> k) d))"

text \<open>\<open>{**a, **b}\<close>: a new dictionary, the items of \<open>a\<close> and then those of \<open>b\<close>.\<close>

definition dict_merge :: "dict \<Rightarrow> dict \<Rightarrow> dict" where
  "dict_merge a b = fold (\<lambda>kv. dict_set (fst kv) (snd kv)) b a"

text \<open>\<open>d[k].append(x)\<close>\<close>

definition list_append_at :: "string \<Rightarrow> pyval \<Rightarrow> dict \<Rightarrow> exn + dict" where
  "list_append_at k x d =
     (case map_of d k of
        None \<Rightarrow> Inl KeyError
      | Some (PList xs) \<Rightarrow> Inr (dict_set k (PList (xs @ [x])) d)
      | Some _ \<Rightarrow> Inl AttributeError)"

section \<open>\<open>str.replace\<close>\<close>

text \<open>
  \<open>s.replace(old, new)\<close> replaces the non-overlapping occurrences of \<open>old\<close> in \<open>s\<close>,
  scanning from the left; with an empty \<open>old\<close> it puts \<open>new\<close> before every character
  and at the end.
\<close>

function replace_scan :: "string \<Rightarrow> string \<Rightarrow> string \<Rightarrow> string" where
  "replace_scan old new [] = []"
| "replace_scan old new (c # cs) =
     (if old \<noteq> [] \<and> prefix old (c # cs)
      then new @ replace_scan old new (drop (length old) (c # cs))
      else c # replace_scan old new cs)"
  by pat_completeness auto
termination
  by (relation "measure (\<lambda>(old, new, s). length s)") (auto simp: neq_Nil_conv)

definition py_replace :: "string \<Rightarrow> string \<Rightarrow> string \<Rightarrow> string" where
  "py_replace s old new =
     (if old = [] then new @ concat (map (\<lambda>c. c # new) s) else replace_scan old new s)"

section \<open>The rendered page as the browser session answers for it\<close>

text \<open>
  A web element answers three requests of the program: \<open>get_attribute(name)\<close>
  (\<open>None\<close> when the attribute is absent), the \<open>text\<close> property, and
  \<open>find_elements(By.XPATH, xpath)\<close>, which either raises or returns the matches
  (none for an expression the element has no answer for). Attributes and text are read
  from an element already found. \<open>find_element\<close> is the first match, and raises
  \<open>NoSuchElementException\<close> when there is none.
\<close>

datatype element =
  Element
    (attributes: "(string \<times> string) list")
    (elem_text: string)
    (queries: "(string \<times> (exn + element list)) list")

definition get_attribute :: "element \<Rightarrow> string \<Rightarrow> string option" where
  "get_attribute elem name = map_of (attributes elem) name"

definition find_elements :: "element \<Rightarrow> string \<Rightarrow> exn + element list" where
  "find_elements elem xpath =
     (case map_of (queries elem) xpath of None \<Rightarrow> Inr [] | Some r \<Rightarrow> r)"

definition find_element :: "element \<Rightarrow> string \<Rightarrow> exn + element" where
  "find_element elem xpath =
     (case find_elements elem xpath of
        Inl e \<Rightarrow> Inl e
      | Inr [] \<Rightarrow> Inl NoSuchElementException
      | Inr (x # _) \<Rightarrow> Inr x)"

text \<open>
  A page of the site: its address, its document, and what a click on the next-page
  link does (it raises, or the browser loads the page with the given number). The
  browser is at one page of a site; the site is any function from page numbers to
  pages, so it may have no last page.
\<close>

record page =
  current_url :: string
  document :: element
  next_click :: "exn + nat"

record driver =
  site :: "nat \<Rightarrow> page"
  at_page :: nat

definition current_page :: "driver \<Rightarrow> page" where
  "current_page d = site d (at_page d)"

section \<open>Constants\<close>

definition SUBMISSIONS_URL :: string where
  "SUBMISSIONS_URL = ''https://www4.unfccc.int/sites/submissionsstaging/Pages/Home.aspx''"

definition RELEVANT_ENTITY_TYPES :: "string list" where
  "RELEVANT_ENTITY_TYPES =
     [''IGO'', ''NAO'', ''NGO'', ''Elections Chairs and Coordinators'', ''Party'', ''UN'',
      ''Observer State'']"

section \<open>The field extractor\<close>

text \<open>
  \<open>find_text_element\<close>: only \<open>NoSuchElementException\<close> is caught, and the function
  then falls off its end, which returns \<open>None\<close>.
\<close>

definition find_text_element :: "element \<Rightarrow> string \<Rightarrow> exn + pyval" where
  "find_text_element elem xpath =
     (case find_element elem xpath of
        Inr sub \<Rightarrow> Inr (PStr (elem_text sub))
      | Inl e \<Rightarrow> if e = NoSuchElementException then Inr PNone else Inl e)"

section \<open>The record parser\<close>

text \<open>
  The body of the loop over the rows of a section, up to the dictionary it appends:
  the link first (\<open>str.replace\<close> raises \<open>TypeError\<close> when the row has no
  \<open>fileref\<close> attribute, since its second argument is then \<open>None\<close>), then the four
  fields in the order of the dictionary literal.
\<close>

definition submission_item :: "string \<Rightarrow> element \<Rightarrow> exn + pyval" where
  "submission_item url submission =
     (case get_attribute submission ''fileref'' of
        None \<Rightarrow> Inl TypeError
      | Some fileref \<Rightarrow>
          (let sub_url = py_replace url ''/sites/submissionsstaging/Pages/Home.aspx'' fileref in
           bind_exn (find_text_element submission ''.//div[@class = 'col-sm-4 filename']'')
             (\<lambda>name.
           bind_exn (find_text_element submission ''.//div[@class = 'col-sm-4 entity']'')
             (\<lambda>entity.
           bind_exn (find_text_element submission ''.//div[@class = 'col-sm-2 language']'')
             (\<lambda>language.
           bind_exn (find_text_element submission ''.//div[@class = 'col-sm-2 submissiondate']'')
             (\<lambda>date.
           Inr (PDict [(''submission_name'', name),
                       (''submission_entity'', entity),
                       (''submission_language'', language),
                       (''submission_date'', date),
                       (''submission_url'', PStr sub_url)])))))))"

text \<open>
  The loop over the rows of one section (\<open>for submission in submissions\<close>);
  \<open>subs\<close> is \<open>sub_dict["submissions"]\<close>.
\<close>

fun submissions_loop :: "string \<Rightarrow> string \<Rightarrow> element list \<Rightarrow> dict \<Rightarrow> exn + dict" where
  "submissions_loop url entity_type [] subs = Inr subs"
| "submissions_loop url entity_type (submission # rest) subs =
     bind_exn (submission_item url submission)
       (\<lambda>item.
     bind_exn (list_append_at entity_type item subs)
       (\<lambda>subs'. submissions_loop url entity_type rest subs'))"

text \<open>
  The loop over the sections of one grid cell
  (\<open>for submission_section in submission_sections\<close>). \<open>get_attribute\<close> gives
  \<open>None\<close> for a section without the attribute, and \<open>None\<close> is not in the list.
\<close>

fun sections_loop :: "string \<Rightarrow> element list \<Rightarrow> dict \<Rightarrow> exn + dict" where
  "sections_loop url [] subs = Inr subs"
| "sections_loop url (submission_section # rest) subs =
     (case get_attribute submission_section ''entitytype'' of
        None \<Rightarrow> sections_loop url rest subs
      | Some entity_type \<Rightarrow>
          if entity_type \<in> set RELEVANT_ENTITY_TYPES then
            (let subs1 = dict_set entity_type (PList []) subs in
             bind_exn (find_elements submission_section
                         ''.//div[contains(@class, 'row tablefilerow ')]'')
               (\<lambda>submissions.
             bind_exn (if submissions \<noteq> []
                       then submissions_loop url entity_type submissions subs1
                       else Inr subs1)
               (\<lambda>subs2. sections_loop url rest subs2)))
          else sections_loop url rest subs)"

text \<open>The body of the loop over the grid cells: the dictionary \<open>sub_dict\<close> of one cell.\<close>

definition parse_grid :: "string \<Rightarrow> element \<Rightarrow> exn + pyval" where
  "parse_grid url submission_grid =
     bind_exn (find_text_element submission_grid
        ''.//div[@class = 'submissioncallarea']/div//div[@class = 'col-md-10 issue']'')
       (\<lambda>issue.
     bind_exn (find_text_element submission_grid
        ''.//div[@class = 'submissioncallarea']/div//div[@class = 'col-md-7 deadline']'')
       (\<lambda>deadline.
     bind_exn (find_text_element submission_grid
        ''.//div[@class = 'submissioncallarea']/div//div[@class = 'col-md-10 cfstitle']'')
       (\<lambda>title.
     bind_exn (find_text_element submission_grid
        ''.//div[@class = 'submissioncallarea']/div//div[@class = 'col-md-10 mandate']'')
       (\<lambda>mandate.
     bind_exn (find_elements submission_grid
        ''.//div[@class = 'container submissionarea']/div[@class = 'submissionssection']'')
       (\<lambda>submission_sections.
     bind_exn (sections_loop url submission_sections [])
       (\<lambda>subs.
     Inr (PDict [(''issue'', issue), (''deadline'', deadline), (''title'', title),
                 (''mandate'', mandate), (''submissions'', PDict subs)])))))))"

text \<open>The loop over the grid cells of the page (\<open>for submission_grid in submission_grids\<close>).\<close>

fun grids_loop :: "string \<Rightarrow> element list \<Rightarrow> pyval list \<Rightarrow> exn + pyval list" where
  "grids_loop url [] submission_list = Inr submission_list"
| "grids_loop url (submission_grid # rest) submission_list =
     bind_exn (parse_grid url submission_grid)
       (\<lambda>sub_dict. grids_loop url rest (submission_list @ [sub_dict]))"

definition priv_parse_submissions :: "driver \<Rightarrow> exn + pyval list" where
  "priv_parse_submissions d =
     bind_exn (find_elements (document (current_page d))
        ''//div[@class = 'panel-collapse collapse in']//div[@class = 'soby_gridcell ']'')
       (\<lambda>submission_grids. grids_loop (current_url (current_page d)) submission_grids [])"

text \<open>
  The guard of the loop over the sections: the category of a section that is kept.
\<close>

definition relevant_entity_type :: "element \<Rightarrow> string option" where
  "relevant_entity_type submission_section =
     (case get_attribute submission_section ''entitytype'' of
        None \<Rightarrow> None
      | Some entity_type \<Rightarrow>
          if entity_type \<in> set RELEVANT_ENTITY_TYPES then Some entity_type else None)"

text \<open>The sub-item dictionaries made from the rows of a section, in order.\<close>

definition row_items :: "string \<Rightarrow> element list \<Rightarrow> pyval list \<Rightarrow> bool" where
  "row_items url rows items = list_all2 (\<lambda>row x. submission_item url row = Inr x) rows items"

text \<open>
  Reading a record: \<open>r["submissions"]\<close> when the record is a dictionary that binds
  the key to a dictionary, the elements of a list, and all sub-items of a record in
  the order of its categories.
\<close>

definition record_submissions :: "pyval \<Rightarrow> dict option" where
  "record_submissions r =
     (case r of
        PDict i \<Rightarrow> (case map_of i ''submissions'' of Some (PDict subs) \<Rightarrow> Some subs | _ \<Rightarrow> None)
      | _ \<Rightarrow> None)"

definition list_items :: "pyval \<Rightarrow> pyval list" where
  "list_items v = (case v of PList xs \<Rightarrow> xs | _ \<Rightarrow> [])"

definition record_subitems :: "pyval \<Rightarrow> pyval list" where
  "record_subitems r =
     (case record_submissions r of
        None \<Rightarrow> []
      | Some subs \<Rightarrow> concat (map (\<lambda>kv. list_items (snd kv)) subs))"

section \<open>Pagination\<close>

text \<open>
  What follows the parse of a page in the loop of \<open>parse_submissions\<close>. The lookup
  of the next-page link and the click are inside \<open>try\<close> with a bare \<open>except\<close>:
  whatever either raises, the loop is left. After a click that does not raise the
  browser is at the page the click loads.
\<close>

definition go_to_next_page :: "driver \<Rightarrow> exn + driver" where
  "go_to_next_page d =
     bind_exn (find_element (document (current_page d))
                 ''//a[contains(@onclick, '.GoToNextPage()')]'')
       (\<lambda>nxt.
     bind_exn (next_click (current_page d))
       (\<lambda>n. Inr (d\<lparr>at_page := n\<rparr>)))"

text \<open>
  \<open>WebDriverWait(driver, 20).until(presence_of_element_located(...))\<close> looks the
  element up until it is found; \<open>NoSuchElementException\<close> is ignored while it waits,
  any other exception of the lookup is raised, and \<open>TimeoutException\<close> is raised when
  the element has not appeared.
\<close>

definition wait_for_call_area :: "driver \<Rightarrow> exn + element" where
  "wait_for_call_area d =
     (case find_element (document (current_page d)) ''//div[@class = 'submissioncallarea']'' of
        Inr area \<Rightarrow> Inr area
      | Inl e \<Rightarrow> if e = NoSuchElementException then Inl TimeoutException else Inl e)"

text \<open>
  The \<open>while True\<close> loop. It has no bound on the number of pages, so it is a partial
  function: \<open>None\<close> is the run that never leaves the loop.
\<close>

partial_function (option) pages_loop :: "driver \<Rightarrow> pyval list \<Rightarrow> (exn + pyval list) option" where
  "pages_loop d subs_container =
     (case priv_parse_submissions d of
        Inl e \<Rightarrow> Some (Inl e)
      | Inr page_records \<Rightarrow>
          (case go_to_next_page d of
             Inl e \<Rightarrow> Some (Inr (subs_container @ page_records))
           | Inr d' \<Rightarrow>
               (case wait_for_call_area d' of
                  Inl e \<Rightarrow> Some (Inl e)
                | Inr area \<Rightarrow> pages_loop d' (subs_container @ page_records))))"

text \<open>
  \<open>parse_submissions\<close>; \<open>now\<close> is the text that
  \<open>datetime.now().strftime("%d-%m-%Y %H:%M:%S")\<close> gives when the dictionary is
  built, after the loop.
\<close>

definition parse_submissions :: "driver \<Rightarrow> string \<Rightarrow> (exn + pyval) option" where
  "parse_submissions d now =
     (case pages_loop d [] of
        None \<Rightarrow> None
      | Some (Inl e) \<Rightarrow> Some (Inl e)
      | Some (Inr subs_container) \<Rightarrow>
          Some (Inr (PDict [(''data_source'', PStr SUBMISSIONS_URL),
                            (''collected_at'', PStr now),
                            (''submissions_data'', PList subs_container)])))"

text \<open>
  The pages the loop parses before it is left by the \<open>except\<close> clause: from the page
  the browser is at, through each page loaded by a click after which the call area
  appeared, to the page on which the lookup of the link or the click raises.
\<close>

inductive visits :: "driver \<Rightarrow> nat list \<Rightarrow> bool" where
  visits_last: "go_to_next_page d = Inl e \<Longrightarrow> visits d [at_page d]"
| visits_next: "go_to_next_page d = Inr d' \<Longrightarrow> wait_for_call_area d' = Inr area \<Longrightarrow>
     visits d' ps \<Longrightarrow> visits d (at_page d # ps)"

code_pred visits .

text \<open>What \<open>_parse_submissions\<close> gives on page \<open>n\<close> of the site the browser is on.\<close>

definition page_records :: "driver \<Rightarrow> nat \<Rightarrow> exn + pyval list" where
  "page_records d n = priv_parse_submissions (d\<lparr>at_page := n\<rparr>)"

section \<open>The exporters\<close>

text \<open>
  \<open>write_to_json\<close> hands the object to \<open>json.dump\<close>, which reads it. The
  document written has the structure of the object (\<open>None\<close> as \<open>null\<close>, a list as
  an array, a dictionary as an object with its keys in order), so the model gives the
  object as the document, next to the object as the call leaves it.
\<close>

definition write_to_json :: "pyval \<Rightarrow> pyval \<times> pyval" where
  "write_to_json submissions_data = (submissions_data, submissions_data)"

text \<open>The values a \<open>for\<close> loop visits.\<close>

definition py_iter :: "pyval \<Rightarrow> exn + pyval list" where
  "py_iter v =
     (case v of
        PList xs \<Rightarrow> Inr xs
      | PStr s \<Rightarrow> Inr (map (\<lambda>c. PStr [c]) s)
      | PDict d \<Rightarrow> Inr (map (\<lambda>kv. PStr (fst kv)) d)
      | PNone \<Rightarrow> Inl TypeError)"

text \<open>\<open>key in v\<close> for a string \<open>key\<close>.\<close>

definition py_contains :: "string \<Rightarrow> pyval \<Rightarrow> exn + bool" where
  "py_contains key v =
     (case v of
        PDict d \<Rightarrow> Inr (key \<in> set (dict_keys d))
      | PList xs \<Rightarrow> Inr (PStr key \<in> set xs)
      | PStr s \<Rightarrow> Inr (sublist key s)
      | PNone \<Rightarrow> Inl TypeError)"

text \<open>
  An object that a loop may have updated in place: a list keeps the updated elements;
  the elements visited in a string or in a dictionary are not parts of it.
\<close>

definition updated_elements :: "pyval \<Rightarrow> pyval list \<Rightarrow> pyval" where
  "updated_elements v xs = (case v of PList _ \<Rightarrow> PList xs | _ \<Rightarrow> v)"

text \<open>
  \<open>for submission_metadata in submission_list\<close>: the sub-item itself gets the key
  \<open>entity_type\<close>, and the row is a new dictionary. The result is the container and
  the sub-items as the loop leaves them.
\<close>

fun metadata_loop ::
  "string \<Rightarrow> dict \<Rightarrow> pyval list \<Rightarrow> pyval list \<Rightarrow> exn + (pyval list \<times> pyval list)" where
  "metadata_loop submission_entity_type issue [] container = Inr (container, [])"
| "metadata_loop submission_entity_type issue (submission_metadata # rest) container =
     (case submission_metadata of
        PDict m \<Rightarrow>
          (let m' = dict_set ''entity_type'' (PStr submission_entity_type) m in
           bind_exn (metadata_loop submission_entity_type issue rest
                       (container @ [PDict (dict_merge m' issue)]))
             (\<lambda>(container', rest'). Inr (container', PDict m' # rest')))
      | _ \<Rightarrow> Inl TypeError)"

text \<open>
  \<open>for (submission_entity_type, submission_list) in issue_specific_submissions.items()\<close>.
  The result is the container and the items as the loop leaves them.
\<close>

fun items_loop :: "dict \<Rightarrow> dict \<Rightarrow> pyval list \<Rightarrow> exn + (pyval list \<times> dict)" where
  "items_loop issue [] container = Inr (container, [])"
| "items_loop issue (kv # rest) container =
     bind_exn (py_iter (snd kv))
       (\<lambda>submission_list.
     bind_exn (metadata_loop (fst kv) issue submission_list container)
       (\<lambda>(container', submission_list').
     bind_exn (items_loop issue rest container')
       (\<lambda>(container'', rest').
     Inr (container'', (fst kv, updated_elements (snd kv) submission_list') # rest'))))"

text \<open>
  The body of \<open>for issue in submissions_all\<close>. \<open>{**issue, **submissions_data}\<close> is a
  new dictionary, so \<open>pop\<close> takes nothing from the record; the popped value is the
  record's own object, unless the run metadata has a key \<open>submissions\<close>, whose value
  then replaces it in the merge. The result is the container, the run metadata and the
  record as the body leaves them.
\<close>

definition issue_body :: "dict \<Rightarrow> pyval \<Rightarrow> pyval list \<Rightarrow> exn + (pyval list \<times> dict \<times> pyval)" where
  "issue_body submissions_data issue container =
     bind_exn (py_contains ''submissions'' issue)
       (\<lambda>present.
          if \<not> present then Inr (container, submissions_data, issue)
          else
            (case issue of
               PDict i \<Rightarrow>
                 bind_exn (dict_pop ''submissions'' (dict_merge i submissions_data))
                   (\<lambda>(issue_specific_submissions, issue').
                      (case issue_specific_submissions of
                         PDict items \<Rightarrow>
                           bind_exn (items_loop issue' items container)
                             (\<lambda>(container', items').
                                if ''submissions'' \<in> set (dict_keys submissions_data)
                                then Inr (container',
                                          dict_set ''submissions'' (PDict items') submissions_data,
                                          issue)
                                else Inr (container', submissions_data,
                                          PDict (dict_set ''submissions'' (PDict items') i)))
                       | _ \<Rightarrow> Inl AttributeError))
             | _ \<Rightarrow> Inl TypeError))"

fun issues_loop :: "dict \<Rightarrow> pyval list \<Rightarrow> pyval list \<Rightarrow> exn + (pyval list \<times> dict \<times> pyval list)" where
  "issues_loop submissions_data [] container = Inr (container, submissions_data, [])"
| "issues_loop submissions_data (issue # rest) container =
     bind_exn (issue_body submissions_data issue container)
       (\<lambda>(container', submissions_data', issue').
     bind_exn (issues_loop submissions_data' rest container')
       (\<lambda>(container'', submissions_data'', rest').
     Inr (container'', submissions_data'', issue' # rest')))"

text \<open>
  \<open>write_to_csv\<close>. The table written has one data row for each dictionary of the
  container, in order. The result is the container, the object passed in as the call
  leaves it, and the popped value as the call leaves it.
\<close>

definition write_to_csv :: "pyval \<Rightarrow> exn + (pyval list \<times> pyval \<times> pyval)" where
  "write_to_csv submissions_data =
     (case submissions_data of
        PDict d \<Rightarrow>
          bind_exn (dict_pop ''submissions_data'' d)
            (\<lambda>(submissions_all, d').
          bind_exn (py_iter submissions_all)
            (\<lambda>issues.
          bind_exn (issues_loop d' issues [])
            (\<lambda>(container, d'', issues').
          Inr (container, PDict d'', updated_elements submissions_all issues'))))
      | PList xs \<Rightarrow> Inl TypeError
      | _ \<Rightarrow> Inl AttributeError)"

text \<open>
  The two exports of \<open>main\<close>, in its order, on the object \<open>parse_submissions\<close>
  returned: the document, the rows, and the object afterwards.
\<close>

definition export_json_then_csv :: "pyval \<Rightarrow> exn + (pyval \<times> pyval list \<times> pyval)" where
  "export_json_then_csv submissions_data =
     (case write_to_json submissions_data of
        (doc, a1) \<Rightarrow>
          bind_exn (write_to_csv a1) (\<lambda>(rows, a2, records). Inr (doc, rows, a2)))"

text \<open>The same two calls in the other order.\<close>

definition export_csv_then_json :: "pyval \<Rightarrow> exn + (pyval \<times> pyval list \<times> pyval)" where
  "export_csv_then_json submissions_data =
     bind_exn (write_to_csv submissions_data)
       (\<lambda>(rows, a1, records).
          (case write_to_json a1 of (doc, a2) \<Rightarrow> Inr (doc, rows, a2)))"

declare pages_loop.simps [code]

section \<open>The flat projection as a function of the aggregate\<close>

text \<open>
  The specification words the flat export as a projection: for each record, for each
  category and sub-item, one row with the sub-item's fields, \<open>entity_type\<close>, the
  record's scalar fields and the run metadata. The definitions below follow these
  words, to be compared with \<open>write_to_csv\<close>; they also name what the call leaves
  behind in the objects it was given.
\<close>

text \<open>A dictionary without a key.\<close>

definition dict_without :: "string \<Rightarrow> dict \<Rightarrow> dict" where
  "dict_without k d = filter (\<lambda>kv. fst kv \<noteq> k) d"

definition is_dict :: "pyval \<Rightarrow> bool" where
  "is_dict v = (case v of PDict _ \<Rightarrow> True | _ \<Rightarrow> False)"

text \<open>A sub-item with its category stored under \<open>entity_type\<close>, and the row made of it.\<close>

definition tag_item :: "string \<Rightarrow> pyval \<Rightarrow> pyval" where
  "tag_item category x =
     (case x of PDict m \<Rightarrow> PDict (dict_set ''entity_type'' (PStr category) m) | _ \<Rightarrow> x)"

definition flat_row :: "dict \<Rightarrow> pyval \<Rightarrow> pyval" where
  "flat_row cols x = (case x of PDict m \<Rightarrow> PDict (dict_merge m cols) | _ \<Rightarrow> x)"

definition category_rows :: "dict \<Rightarrow> string \<times> pyval \<Rightarrow> pyval list" where
  "category_rows cols kv =
     map (\<lambda>x. flat_row cols (tag_item (fst kv) x)) (list_items (snd kv))"

definition tag_category :: "string \<times> pyval \<Rightarrow> string \<times> pyval" where
  "tag_category kv = (fst kv, PList (map (tag_item (fst kv)) (list_items (snd kv))))"

text \<open>
  The rows of a record: its fields other than \<open>submissions\<close>, with the run metadata,
  go into every row.
\<close>

definition record_rows :: "dict \<Rightarrow> pyval \<Rightarrow> pyval list" where
  "record_rows metadata r =
     (case r of
        PDict i \<Rightarrow>
          (case map_of i ''submissions'' of
             Some (PDict cats) \<Rightarrow>
               concat (map (category_rows (dict_without ''submissions'' (dict_merge i metadata)))
                        cats)
           | _ \<Rightarrow> [])
      | _ \<Rightarrow> [])"

definition tag_record :: "pyval \<Rightarrow> pyval" where
  "tag_record r =
     (case r of
        PDict i \<Rightarrow>
          (case map_of i ''submissions'' of
             Some (PDict cats) \<Rightarrow> PDict (dict_set ''submissions'' (PDict (map tag_category cats)) i)
           | _ \<Rightarrow> r)
      | _ \<Rightarrow> r)"

text \<open>The record list and the run metadata of an aggregate, and all its rows.\<close>

definition aggregate_records :: "pyval \<Rightarrow> pyval list" where
  "aggregate_records a =
     (case a of
        PDict d \<Rightarrow> (case map_of d ''submissions_data'' of Some (PList rs) \<Rightarrow> rs | _ \<Rightarrow> [])
      | _ \<Rightarrow> [])"

definition run_metadata :: "pyval \<Rightarrow> dict" where
  "run_metadata a = (case a of PDict d \<Rightarrow> dict_without ''submissions_data'' d | _ \<Rightarrow> [])"

definition flat_rows :: "pyval \<Rightarrow> pyval list" where
  "flat_rows a = concat (map (record_rows (run_metadata a)) (aggregate_records a))"

text \<open>The number of sub-items in a nested document, over all records and categories.\<close>

definition nested_subitem_count :: "pyval \<Rightarrow> nat" where
  "nested_subitem_count doc =
     sum_list (map (\<lambda>r. length (record_subitems r)) (aggregate_records doc))"

text \<open>
  The shape of the values \<open>parse_submissions\<close> builds: the aggregate is a dictionary
  that binds \<open>submissions_data\<close> to a list of records and has no key
  \<open>submissions\<close>; a record is a dictionary whose \<open>submissions\<close>, when present, is
  a dictionary of lists of dictionaries.
\<close>

definition wf_category :: "string \<times> pyval \<Rightarrow> bool" where
  "wf_category kv = (case snd kv of PList xs \<Rightarrow> list_all is_dict xs | _ \<Rightarrow> False)"

definition wf_record :: "pyval \<Rightarrow> bool" where
  "wf_record r =
     (case r of
        PDict i \<Rightarrow>
          (case map_of i ''submissions'' of
             None \<Rightarrow> True
           | Some (PDict cats) \<Rightarrow> list_all wf_category cats
           | Some _ \<Rightarrow> False)
      | _ \<Rightarrow> False)"

definition wf_aggregate :: "pyval \<Rightarrow> bool" where
  "wf_aggregate a =
     (case a of
        PDict d \<Rightarrow>
          ''submissions'' \<notin> set (dict_keys d)
          \<and> (case map_of d ''submissions_data'' of
                Some (PList rs) \<Rightarrow> list_all wf_record rs
              | _ \<Rightarrow> False)
      | _ \<Rightarrow> False)"

section \<open>Example pages\<close>

definition ex_field :: element where
  "ex_field = Element [] ''Call for views'' []"


definition ex_row :: element where
  "ex_row = Element [(''fileref'', ''/sites/submissionsstaging/Documents/a.pdf'')] [] []"

definition ex_party :: element where
  "ex_party = Element [(''entitytype'', ''Party'')] []
     [(''.//div[contains(@class, 'row tablefilerow ')]'', Inr [ex_row])]"

definition ex_ngo :: element where
  "ex_ngo = Element [(''entitytype'', ''NGO'')] [] []"

definition ex_internal :: element where
  "ex_internal = Element [(''entitytype'', ''Internal'')] []
     [(''.//div[contains(@class, 'row tablefilerow ')]'', Inr [ex_row, ex_row, ex_row])]"

definition ex_grid :: element where
  "ex_grid = Element [] []
     [(''.//div[@class = 'container submissionarea']/div[@class = 'submissionssection']'',
       Inr [ex_party, ex_internal, ex_ngo])]"

definition ex_page :: page where
  "ex_page =
     \<lparr>current_url = SUBMISSIONS_URL,
      document = Element [] []
        [(''//div[@class = 'panel-collapse collapse in']//div[@class = 'soby_gridcell ']'',
          Inr [ex_grid])],
      next_click = Inl WebDriverException\<rparr>"

definition ex_driver :: driver where
  "ex_driver = \<lparr>site = (\<lambda>n. ex_page), at_page = 0\<rparr>"

definition ex_item :: pyval where
  "ex_item =
     PDict [(''submission_name'', PNone), (''submission_entity'', PNone),
            (''submission_language'', PNone), (''submission_date'', PNone),
            (''submission_url'',
             PStr ''https://www4.unfccc.int/sites/submissionsstaging/Documents/a.pdf'')]"

definition ex_record :: pyval where
  "ex_record =
     PDict [(''issue'', PNone), (''deadline'', PNone), (''title'', PNone), (''mandate'', PNone),
            (''submissions'', PDict [(''Party'', PList [ex_item]), (''NGO'', PList [])])]"

definition ex_party_empty :: element where
  "ex_party_empty = Element [(''entitytype'', ''Party'')] [] []"

definition ex_dup_grid :: element where
  "ex_dup_grid = Element [] []
     [(''.//div[@class = 'container submissionarea']/div[@class = 'submissionssection']'',
       Inr [ex_party_empty, ex_party])]"

definition ex_dup_driver :: driver where
  "ex_dup_driver =
     \<lparr>site = (\<lambda>n.
        \<lparr>current_url = SUBMISSIONS_URL,
         document = Element [] []
           [(''//div[@class = 'panel-collapse collapse in']//div[@class = 'soby_gridcell ']'',
             Inr [ex_dup_grid])],
         next_click = Inl WebDriverException\<rparr>),
      at_page = 0\<rparr>"

definition ex_link :: element where
  "ex_link = Element [(''onclick'', ''grid.GoToNextPage()'')] ''Next'' []"

definition ex_first_page :: page where
  "ex_first_page =
     \<lparr>current_url = SUBMISSIONS_URL,
      document = Element [] []
        [(''//div[@class = 'panel-collapse collapse in']//div[@class = 'soby_gridcell ']'',
          Inr [ex_grid, ex_dup_grid]),
         (''//a[contains(@onclick, '.GoToNextPage()')]'', Inr [ex_link])],
      next_click = Inr 1\<rparr>"

definition ex_last_page :: page where
  "ex_last_page =
     \<lparr>current_url = SUBMISSIONS_URL,
      document = Element [] []
        [(''//div[@class = 'panel-collapse collapse in']//div[@class = 'soby_gridcell ']'',
          Inr [ex_grid]),
         (''//div[@class = 'submissioncallarea']'', Inr [ex_field])],
      next_click = Inl WebDriverException\<rparr>"

definition ex_two_pages :: driver where
  "ex_two_pages = \<lparr>site = (\<lambda>n. if n = 0 then ex_first_page else ex_last_page), at_page = 0\<rparr>"

definition ex_dup_record :: pyval where
  "ex_dup_record =
     PDict [(''issue'', PNone), (''deadline'', PNone), (''title'', PNone), (''mandate'', PNone),
            (''submissions'', PDict [(''Party'', PList [ex_item])])]"

definition ex_stuck_page :: page where
  "ex_stuck_page =
     \<lparr>current_url = SUBMISSIONS_URL,
      document = Element [] []
        [(''//div[@class = 'panel-collapse collapse in']//div[@class = 'soby_gridcell ']'',
          Inr [ex_grid]),
         (''//a[contains(@onclick, '.GoToNextPage()')]'', Inr [ex_link])],
      next_click = Inl WebDriverException\<rparr>"

definition ex_stuck_driver :: driver where
  "ex_stuck_driver = \<lparr>site = (\<lambda>n. ex_stuck_page), at_page = 0\<rparr>"

definition ex_blank_page :: page where
  "ex_blank_page =
     \<lparr>current_url = SUBMISSIONS_URL, document = Element [] [] [],
      next_click = Inl WebDriverException\<rparr>"

definition ex_timeout_driver :: driver where
  "ex_timeout_driver =
     \<lparr>site = (\<lambda>n. if n = 0 then ex_first_page else ex_blank_page), at_page = 0\<rparr>"

definition ex_aggregate :: pyval where
  "ex_aggregate =
     PDict [(''data_source'', PStr SUBMISSIONS_URL),
            (''collected_at'', PStr ''04-11-2026 10:00:00''),
            (''submissions_data'', PList [ex_record])]"

definition ex_metadata :: pyval where
  "ex_metadata =
     PDict [(''data_source'', PStr SUBMISSIONS_URL),
            (''collected_at'', PStr ''04-11-2026 10:00:00'')]"

definition ex_flat_row :: pyval where
  "ex_flat_row =
     PDict [(''submission_name'', PNone), (''submission_entity'', PNone),
            (''submission_language'', PNone), (''submission_date'', PNone),
            (''submission_url'',
             PStr ''https://www4.unfccc.int/sites/submissionsstaging/Documents/a.pdf''),
            (''entity_type'', PStr ''Party''), (''issue'', PNone), (''deadline'', PNone),
            (''title'', PNone), (''mandate'', PNone),
            (''data_source'', PStr SUBMISSIONS_URL),
            (''collected_at'', PStr ''04-11-2026 10:00:00'')]"

definition ex_tagged_record :: pyval where
  "ex_tagged_record =
     PDict [(''issue'', PNone), (''deadline'', PNone), (''title'', PNone), (''mandate'', PNone),
            (''submissions'',
             PDict [(''Party'',
                     PList [PDict [(''submission_name'', PNone), (''submission_entity'', PNone),
                                   (''submission_language'', PNone), (''submission_date'', PNone),
                                   (''submission_url'',
                                    PStr ''https://www4.unfccc.int/sites/submissionsstaging/Documents/a.pdf''),
                                   (''entity_type'', PStr ''Party'')]]),
                    (''NGO'', PList [])])]"

definition ex_other_driver :: driver where
  "ex_other_driver =
     \<lparr>site = (\<lambda>n.
        \<lparr>current_url = ''https://unfccc.int/submissions'',
         document = Element [] []
           [(''//div[@class = 'panel-collapse collapse in']//div[@class = 'soby_gridcell ']'',
             Inr [ex_grid])],
         next_click = Inl WebDriverException\<rparr>),
      at_page = 0\<rparr>"

definition ex_other_item :: pyval where
  "ex_other_item =
     PDict [(''submission_name'', PNone), (''submission_entity'', PNone),
            (''submission_language'', PNone), (''submission_date'', PNone),
            (''submission_url'', PStr ''https://unfccc.int/submissions'')]"

definition ex_other_record :: pyval where
  "ex_other_record =
     PDict [(''issue'', PNone), (''deadline'', PNone), (''title'', PNone), (''mandate'', PNone),
            (''submissions'', PDict [(''Party'', PList [ex_other_item]), (''NGO'', PList [])])]"

section \<open>Exceptions and dictionaries\<close>

lemma bind_exn_Inl [simp]: "bind_exn (Inl e) f = Inl e"
  by (simp add: bind_exn_def)

lemma bind_exn_Inr [simp]: "bind_exn (Inr x) f = f x"
  by (simp add: bind_exn_def)

lemma bind_exn_eq_Inr: "bind_exn m f = Inr y \<longleftrightarrow> (\<exists>x. m = Inr x \<and> f x = Inr y)"
  by (cases m) simp_all

lemma map_of_dict_set: "map_of (dict_set k v d) = (map_of d)(k \<mapsto> v)"
  by (induction d) (auto simp: fun_eq_iff)

lemma set_dict_keys: "set (dict_keys d) = dom (map_of d)"
  by (simp add: dict_keys_def dom_map_of_conv_image_fst)

lemma dict_keys_dict_set: "set (dict_keys (dict_set k v d)) = insert k (set (dict_keys d))"
  by (simp add: set_dict_keys map_of_dict_set)

lemma dict_set_twice: "dict_set k v (dict_set k w d) = dict_set k v d"
  by (induction d) auto

section \<open>The field extractor\<close>



section \<open>The record parser: what the loops compute\<close>

lemma list_append_at_list:
  "map_of d k = Some (PList xs) \<Longrightarrow> list_append_at k x d = Inr (dict_set k (PList (xs @ [x])) d)"
  by (simp add: list_append_at_def)

lemma submissions_loop_result:
  "map_of subs et = Some (PList xs) \<Longrightarrow> submissions_loop url et rows subs = Inr subs' \<Longrightarrow>
   \<exists>items. row_items url rows items \<and> subs' = dict_set et (PList (xs @ items)) subs"
proof (induction rows arbitrary: subs xs)
  case Nil
  then have "subs' = subs" by simp
  moreover have "dict_set et (PList xs) subs = subs"
    using Nil(1) by (induction subs) (auto split: if_splits)
  ultimately show ?case by (simp add: row_items_def)
next
  case (Cons row rows)
  from Cons.prems(2) obtain item where item: "submission_item url row = Inr item"
    and rest: "submissions_loop url et rows (dict_set et (PList (xs @ [item])) subs) = Inr subs'"
    by (auto simp: bind_exn_eq_Inr list_append_at_list [OF Cons.prems(1)])
  have "map_of (dict_set et (PList (xs @ [item])) subs) et = Some (PList (xs @ [item]))"
    by (simp add: map_of_dict_set)
  from Cons.IH [OF this rest] obtain items where
    "row_items url rows items"
    "subs' = dict_set et (PList ((xs @ [item]) @ items)) (dict_set et (PList (xs @ [item])) subs)"
    by blast
  then have "row_items url (row # rows) (item # items) \<and>
      subs' = dict_set et (PList (xs @ item # items)) subs"
    using item by (simp add: row_items_def dict_set_twice)
  then show ?case by blast
qed

lemma relevant_entity_type_member:
  "relevant_entity_type s = Some et \<Longrightarrow> et \<in> set RELEVANT_ENTITY_TYPES"
  by (auto simp: relevant_entity_type_def split: option.splits if_splits)

lemma sections_loop_dropped:
  "relevant_entity_type s = None \<Longrightarrow> sections_loop url (s # rest) subs = sections_loop url rest subs"
  by (auto simp: relevant_entity_type_def split: option.splits if_splits)

lemma sections_loop_kept:
  assumes "relevant_entity_type s = Some et"
    and "sections_loop url (s # rest) subs = Inr subs'"
  shows "\<exists>rows items.
           find_elements s ''.//div[contains(@class, 'row tablefilerow ')]'' = Inr rows
           \<and> row_items url rows items
           \<and> sections_loop url rest (dict_set et (PList items) subs) = Inr subs'"
proof -
  from assms(1) have a: "get_attribute s ''entitytype'' = Some et" "et \<in> set RELEVANT_ENTITY_TYPES"
    by (auto simp: relevant_entity_type_def split: option.splits if_splits)
  from assms(2) a obtain rows subs2 where
    rows: "find_elements s ''.//div[contains(@class, 'row tablefilerow ')]'' = Inr rows"
    and body: "(if rows \<noteq> [] then submissions_loop url et rows (dict_set et (PList []) subs)
                else Inr (dict_set et (PList []) subs)) = Inr subs2"
    and rest: "sections_loop url rest subs2 = Inr subs'"
    by (auto simp: bind_exn_eq_Inr Let_def)
  have "submissions_loop url et rows (dict_set et (PList []) subs) = Inr subs2"
    using body by (cases rows) simp_all
  moreover have "map_of (dict_set et (PList []) subs) et = Some (PList [])"
    by (simp add: map_of_dict_set)
  ultimately obtain items where "row_items url rows items"
    "subs2 = dict_set et (PList ([] @ items)) (dict_set et (PList []) subs)"
    using submissions_loop_result by blast
  then show ?thesis using rows rest by (auto simp: dict_set_twice)
qed

lemma sections_loop_keys:
  "sections_loop url secs subs = Inr subs' \<Longrightarrow>
   set (dict_keys subs') = set (dict_keys subs) \<union> {et. \<exists>s\<in>set secs. relevant_entity_type s = Some et}"
proof (induction secs arbitrary: subs)
  case Nil
  then show ?case by simp
next
  case (Cons s secs)
  show ?case
  proof (cases "relevant_entity_type s")
    case None
    with Cons.prems have "sections_loop url secs subs = Inr subs'"
      by (simp only: sections_loop_dropped)
    from Cons.IH [OF this] None show ?thesis by auto
  next
    case (Some et)
    from sections_loop_kept [OF Some Cons.prems] obtain items where
      "sections_loop url secs (dict_set et (PList items) subs) = Inr subs'" by blast
    from Cons.IH [OF this] Some show ?thesis by (auto simp: dict_keys_dict_set)
  qed
qed

lemma sections_loop_value:
  "sections_loop url secs subs = Inr subs' \<Longrightarrow> map_of subs' et = Some v \<Longrightarrow>
   (map_of subs et = Some v \<and> (\<forall>s\<in>set secs. relevant_entity_type s \<noteq> Some et)) \<or>
   (\<exists>pre s post rows items.
       secs = pre @ s # post \<and> relevant_entity_type s = Some et
       \<and> (\<forall>t\<in>set post. relevant_entity_type t \<noteq> Some et)
       \<and> find_elements s ''.//div[contains(@class, 'row tablefilerow ')]'' = Inr rows
       \<and> row_items url rows items \<and> v = PList items)"
proof (induction secs arbitrary: subs)
  case Nil
  then show ?case by simp
next
  case (Cons a secs)
  let ?B = "\<lambda>secs. \<exists>pre s post rows items.
       secs = pre @ s # post \<and> relevant_entity_type s = Some et
       \<and> (\<forall>t\<in>set post. relevant_entity_type t \<noteq> Some et)
       \<and> find_elements s ''.//div[contains(@class, 'row tablefilerow ')]'' = Inr rows
       \<and> row_items url rows items \<and> v = PList items"
  have lift: "?B secs \<Longrightarrow> ?B (a # secs)"
  proof -
    assume "?B secs"
    then obtain pre s post rows items where h: "secs = pre @ s # post"
      "relevant_entity_type s = Some et" "\<forall>t\<in>set post. relevant_entity_type t \<noteq> Some et"
      "find_elements s ''.//div[contains(@class, 'row tablefilerow ')]'' = Inr rows"
      "row_items url rows items" "v = PList items" by blast
    from h(1) have "a # secs = (a # pre) @ s # post" by simp
    with h(2-6) show "?B (a # secs)" by blast
  qed
  show ?case
  proof (cases "relevant_entity_type a")
    case None
    with Cons.prems have "sections_loop url secs subs = Inr subs'"
      by (simp only: sections_loop_dropped)
    from Cons.IH [OF this Cons.prems(2)] show ?thesis
    proof
      assume "map_of subs et = Some v \<and> (\<forall>s\<in>set secs. relevant_entity_type s \<noteq> Some et)"
      with None show ?thesis by simp
    next
      assume "?B secs"
      then show ?thesis using lift by blast
    qed
  next
    case (Some c)
    from sections_loop_kept [OF Some Cons.prems(1)] obtain rows items where
      rows: "find_elements a ''.//div[contains(@class, 'row tablefilerow ')]'' = Inr rows"
      and items: "row_items url rows items"
      and rest: "sections_loop url secs (dict_set c (PList items) subs) = Inr subs'" by blast
    from Cons.IH [OF rest Cons.prems(2)] show ?thesis
    proof
      assume h: "map_of (dict_set c (PList items) subs) et = Some v \<and>
                 (\<forall>s\<in>set secs. relevant_entity_type s \<noteq> Some et)"
      show ?thesis
      proof (cases "c = et")
        case True
        with h have "v = PList items" by (simp add: map_of_dict_set)
        with True Some h rows items have "a # secs = [] @ a # secs \<and> relevant_entity_type a = Some et
          \<and> (\<forall>t\<in>set secs. relevant_entity_type t \<noteq> Some et)
          \<and> find_elements a ''.//div[contains(@class, 'row tablefilerow ')]'' = Inr rows
          \<and> row_items url rows items \<and> v = PList items" by simp
        then have "?B (a # secs)" by blast
        then show ?thesis by blast
      next
        case False
        with h Some show ?thesis by (simp add: map_of_dict_set)
      qed
    next
      assume "?B secs"
      then show ?thesis using lift by blast
    qed
  qed
qed

lemma sections_loop_drop_middle:
  "relevant_entity_type s = None \<Longrightarrow>
   sections_loop url (pre @ s # post) subs = sections_loop url (pre @ post) subs"
proof (induction pre arbitrary: subs)
  case Nil
  then show ?case by (simp only: sections_loop_dropped append_Nil)
next
  case (Cons a pre)
  then have "sections_loop url (pre @ s # post) = sections_loop url (pre @ post)"
    by (intro ext) simp
  then show ?case by (simp split: option.splits)
qed

lemma parse_grid_result:
  "parse_grid url g = Inr r \<Longrightarrow>
   \<exists>issue deadline title mandate secs subs.
     find_elements g ''.//div[@class = 'container submissionarea']/div[@class = 'submissionssection']'' = Inr secs
     \<and> sections_loop url secs [] = Inr subs
     \<and> r = PDict [(''issue'', issue), (''deadline'', deadline), (''title'', title),
                  (''mandate'', mandate), (''submissions'', PDict subs)]"
  unfolding parse_grid_def bind_exn_eq_Inr by blast

lemma grids_loop_result:
  "grids_loop url gs acc = Inr recs \<Longrightarrow>
   \<exists>rs. recs = acc @ rs \<and> list_all2 (\<lambda>g r. parse_grid url g = Inr r) gs rs"
proof (induction gs arbitrary: acc)
  case Nil
  then show ?case by simp
next
  case (Cons g gs)
  from Cons.prems obtain r where r: "parse_grid url g = Inr r"
    and rest: "grids_loop url gs (acc @ [r]) = Inr recs"
    by (auto simp: bind_exn_eq_Inr)
  from Cons.IH [OF rest] obtain rs where "recs = (acc @ [r]) @ rs"
    "list_all2 (\<lambda>g r. parse_grid url g = Inr r) gs rs" by blast
  with r have "recs = acc @ (r # rs) \<and> list_all2 (\<lambda>g r. parse_grid url g = Inr r) (g # gs) (r # rs)"
    by simp
  then show ?case by blast
qed

lemma priv_parse_submissions_result:
  "priv_parse_submissions d = Inr recs \<Longrightarrow>
   \<exists>gs. find_elements (document (current_page d))
          ''//div[@class = 'panel-collapse collapse in']//div[@class = 'soby_gridcell ']'' = Inr gs
        \<and> list_all2 (\<lambda>g r. parse_grid (current_url (current_page d)) g = Inr r) gs recs"
  unfolding priv_parse_submissions_def bind_exn_eq_Inr
  using grids_loop_result [of _ _ "[]"] by fastforce

lemma ex_driver_parse: "priv_parse_submissions ex_driver = Inr [ex_record]"
  by code_simp

lemma set_dict_set_subset: "set (dict_set k v d) \<subseteq> insert (k, v) (set d)"
  by (induction d) (auto split: if_splits)

lemma distinct_dict_set:
  "distinct (dict_keys d) \<Longrightarrow> distinct (dict_keys (dict_set k v d))"
proof (induction d)
  case Nil
  then show ?case by (simp add: dict_keys_def)
next
  case (Cons p d)
  have "fst p \<noteq> k \<Longrightarrow> fst p \<notin> fst ` set (dict_set k v d)"
    using Cons.prems set_dict_set_subset [of k v d] by (auto simp: dict_keys_def)
  with Cons show ?case by (cases p) (auto simp: dict_keys_def)
qed

lemma sections_loop_distinct:
  "sections_loop url secs subs = Inr subs' \<Longrightarrow> distinct (dict_keys subs) \<Longrightarrow>
   distinct (dict_keys subs')"
proof (induction secs arbitrary: subs)
  case Nil
  then show ?case by simp
next
  case (Cons s secs)
  show ?case
  proof (cases "relevant_entity_type s")
    case None
    with Cons.prems have "sections_loop url secs subs = Inr subs'"
      by (simp only: sections_loop_dropped)
    then show ?thesis using Cons.IH Cons.prems(2) by blast
  next
    case (Some et)
    from sections_loop_kept [OF Some Cons.prems(1)] obtain items where
      "sections_loop url secs (dict_set et (PList items) subs) = Inr subs'" by blast
    then show ?thesis using Cons.IH Cons.prems(2) distinct_dict_set by blast
  qed
qed

lemma submission_item_result:
  "submission_item url row = Inr x \<Longrightarrow>
   \<exists>fileref name entity language date.
     get_attribute row ''fileref'' = Some fileref
     \<and> find_text_element row ''.//div[@class = 'col-sm-4 filename']'' = Inr name
     \<and> find_text_element row ''.//div[@class = 'col-sm-4 entity']'' = Inr entity
     \<and> find_text_element row ''.//div[@class = 'col-sm-2 language']'' = Inr language
     \<and> find_text_element row ''.//div[@class = 'col-sm-2 submissiondate']'' = Inr date
     \<and> x = PDict [(''submission_name'', name), (''submission_entity'', entity),
                  (''submission_language'', language), (''submission_date'', date),
                  (''submission_url'',
                   PStr (py_replace url ''/sites/submissionsstaging/Pages/Home.aspx'' fileref))]"
  unfolding submission_item_def
  by (cases "get_attribute row ''fileref''") (auto simp: bind_exn_eq_Inr Let_def)

lemma parsed_record:
  assumes "priv_parse_submissions d = Inr recs" and "r \<in> set recs"
  shows "\<exists>g secs subs issue deadline title mandate.
           find_elements g ''.//div[@class = 'container submissionarea']/div[@class = 'submissionssection']'' = Inr secs
           \<and> sections_loop (current_url (current_page d)) secs [] = Inr subs
           \<and> r = PDict [(''issue'', issue), (''deadline'', deadline), (''title'', title),
                        (''mandate'', mandate), (''submissions'', PDict subs)]"
proof -
  from priv_parse_submissions_result [OF assms(1)] obtain gs where
    all: "list_all2 (\<lambda>g r. parse_grid (current_url (current_page d)) g = Inr r) gs recs" by blast
  from assms(2) obtain n where n: "n < length recs" "recs ! n = r"
    by (auto simp: in_set_conv_nth)
  with all have "parse_grid (current_url (current_page d)) (gs ! n) = Inr r"
    by (auto simp: list_all2_conv_all_nth)
  from parse_grid_result [OF this] show ?thesis by blast
qed

lemma record_submissions_parsed [simp]:
  "record_submissions (PDict [(''issue'', issue), (''deadline'', deadline), (''title'', title),
                        (''mandate'', mandate), (''submissions'', PDict subs)]) = Some subs"
  by (simp add: record_submissions_def)

lemma sections_loop_append:
  "sections_loop url (xs @ ys) subs =
   bind_exn (sections_loop url xs subs) (sections_loop url ys)"
proof (induction xs arbitrary: subs)
  case Nil
  show ?case by simp
next
  case (Cons a xs)
  then have eq: "sections_loop url (xs @ ys) =
      (\<lambda>subs. bind_exn (sections_loop url xs subs) (sections_loop url ys))"
    by (intro ext) simp
  show ?case
  proof (cases "relevant_entity_type a")
    case None
    then show ?thesis
      using Cons by (simp only: append_Cons sections_loop_dropped)
  next
    case (Some et)
    then have a: "get_attribute a ''entitytype'' = Some et" "et \<in> set RELEVANT_ENTITY_TYPES"
      by (auto simp: relevant_entity_type_def split: option.splits if_splits)
    show ?thesis
    proof (cases "find_elements a ''.//div[contains(@class, 'row tablefilerow ')]''")
      case (Inl e)
      with a show ?thesis by simp
    next
      case (Inr rows)
      show ?thesis
      proof (cases "if rows \<noteq> [] then submissions_loop url et rows (dict_set et (PList []) subs)
                    else Inr (dict_set et (PList []) subs)")
        case (Inl e)
        with a Inr show ?thesis by (simp add: Let_def)
      next
        case (Inr subs2)
        with a \<open>find_elements a _ = Inr rows\<close> Cons [of subs2] show ?thesis
          by (simp add: Let_def)
      qed
    qed
  qed
qed

lemma sections_loop_untouched:
  "sections_loop url post m = Inr subs \<Longrightarrow>
   \<forall>t\<in>set post. relevant_entity_type t \<noteq> Some et \<Longrightarrow> map_of subs et = map_of m et"
proof (induction post arbitrary: m)
  case Nil
  then show ?case by simp
next
  case (Cons a post)
  show ?case
  proof (cases "relevant_entity_type a")
    case None
    with Cons.prems have "sections_loop url post m = Inr subs"
      by (simp only: sections_loop_dropped)
    then show ?thesis using Cons.IH Cons.prems(2) by simp
  next
    case (Some c)
    from sections_loop_kept [OF Some Cons.prems(1)] obtain items where
      "sections_loop url post (dict_set c (PList items) m) = Inr subs" by blast
    from Cons.IH [OF this] Cons.prems(2) have "map_of subs et = map_of (dict_set c (PList items) m) et"
      by simp
    moreover from Some Cons.prems(2) have "c \<noteq> et" by auto
    ultimately show ?thesis by (simp add: map_of_dict_set)
  qed
qed

lemma ex_dup_driver_parse:
  "priv_parse_submissions ex_dup_driver =
     Inr [PDict [(''issue'', PNone), (''deadline'', PNone), (''title'', PNone), (''mandate'', PNone),
                 (''submissions'', PDict [(''Party'', PList [ex_item])])]]"
  by code_simp

lemma ex_sections_loop_eq:
  "sections_loop SUBMISSIONS_URL ([ex_party] @ ex_internal # [ex_ngo]) [] =
   sections_loop SUBMISSIONS_URL ([ex_party] @ [ex_ngo]) []"
  by code_simp

lemma replace_scan_no_occurrence:
  "old \<noteq> [] \<Longrightarrow> \<not> sublist old s \<Longrightarrow> replace_scan old new s = s"
proof (induction s)
  case Nil
  show ?case by simp
next
  case (Cons c cs)
  from Cons.prems(2) have "\<not> prefix old (c # cs)" and "\<not> sublist old cs"
    by (simp_all add: sublist_Cons_right)
  with Cons.IH Cons.prems(1) show ?case by simp
qed

lemma prefix_of_long_front:
  "prefix xs (ys @ zs) \<Longrightarrow> length xs \<le> length ys \<Longrightarrow> prefix xs ys"
  by (auto simp: prefix_append)

lemma replace_scan_first_occurrence:
  "old \<noteq> [] \<Longrightarrow> \<not> sublist old (pre @ butlast old) \<Longrightarrow>
   replace_scan old new (pre @ old @ post) = pre @ new @ replace_scan old new post"
proof (induction pre)
  case Nil
  then obtain h t where old: "old = h # t" by (cases old) auto
  have "prefix old (old @ post)" by simp
  then have "replace_scan old new (h # t @ post) =
      new @ replace_scan old new (drop (length old) (h # t @ post))"
    unfolding old by (subst replace_scan.simps) simp
  then show ?case by (simp add: old)
next
  case (Cons c pre)
  have split: "c # pre @ old @ post = (c # pre @ butlast old) @ [last old] @ post"
    using Cons.prems(1) by simp
  have "\<not> prefix old (c # pre @ old @ post)"
  proof
    assume "prefix old (c # pre @ old @ post)"
    then have "prefix old ((c # pre @ butlast old) @ [last old] @ post)"
      by (simp only: split)
    moreover have "length old \<le> length (c # pre @ butlast old)"
      by simp
    ultimately have "prefix old (c # pre @ butlast old)"
      by (rule prefix_of_long_front)
    then have "sublist old (c # pre @ butlast old)" by (rule prefix_imp_sublist)
    with Cons.prems(2) show False by simp
  qed
  moreover from Cons.prems(2) have "\<not> sublist old (pre @ butlast old)"
    by (simp add: sublist_Cons_right)
  ultimately show ?case using Cons.IH Cons.prems(1) by simp
qed

lemma py_replace_first_occurrence:
  "old \<noteq> [] \<Longrightarrow> \<not> sublist old (pre @ butlast old) \<Longrightarrow>
   py_replace (pre @ old @ post) old new = pre @ new @ py_replace post old new"
  by (simp add: py_replace_def replace_scan_first_occurrence)

lemma py_replace_no_occurrence:
  "old \<noteq> [] \<Longrightarrow> \<not> sublist old s \<Longrightarrow> py_replace s old new = s"
  by (simp add: py_replace_def replace_scan_no_occurrence)

lemma parsed_record_grid:
  assumes "priv_parse_submissions d = Inr recs" and "r \<in> set recs"
  shows "\<exists>grids grid.
           find_elements (document (current_page d))
             ''//div[@class = 'panel-collapse collapse in']//div[@class = 'soby_gridcell ']''
             = Inr grids
           \<and> grid \<in> set grids
           \<and> parse_grid (current_url (current_page d)) grid = Inr r"
proof -
  from priv_parse_submissions_result [OF assms(1)] obtain gs where
    gs: "find_elements (document (current_page d))
          ''//div[@class = 'panel-collapse collapse in']//div[@class = 'soby_gridcell ']'' = Inr gs"
    and all: "list_all2 (\<lambda>g r. parse_grid (current_url (current_page d)) g = Inr r) gs recs"
    by blast
  from assms(2) obtain n where n: "n < length recs" "recs ! n = r"
    by (auto simp: in_set_conv_nth)
  with all have "parse_grid (current_url (current_page d)) (gs ! n) = Inr r" "gs ! n \<in> set gs"
    by (auto simp: list_all2_conv_all_nth)
  with gs show ?thesis by blast
qed

lemma row_items_member:
  assumes "row_items url rows items" and "x \<in> set items"
  shows "\<exists>row\<in>set rows. submission_item url row = Inr x"
proof -
  from assms(2) obtain n where n: "n < length items" "items ! n = x"
    by (auto simp: in_set_conv_nth)
  with assms(1) have "submission_item url (rows ! n) = Inr x" "rows ! n \<in> set rows"
    by (auto simp: row_items_def list_all2_conv_all_nth)
  then show ?thesis by blast
qed

lemma ex_other_driver_parse: "priv_parse_submissions ex_other_driver = Inr [ex_other_record]"
  by code_simp

section \<open>The record parser: properties of its records\<close>

text \<open>
  C1. Every sub-item of every record that \<open>_parse_submissions\<close> returns is the
  dictionary made from one row of the page: a row found in a section, with a category
  of \<open>RELEVANT_ENTITY_TYPES\<close>, of the grid cell the record was parsed from. Its
  \<open>submission_url\<close> is a string, the result of \<open>replace\<close> on the address of the
  current page with the listing path and that row's \<open>fileref\<close> attribute, whatever
  the four text fields are (each is the text found in the row or \<open>None\<close>). The
  replacement puts the attribute value where the listing path first occurs in the
  address, and gives the address itself when the path does not occur in it.
\<close>

theorem submission_url_is_string:
  assumes "priv_parse_submissions d = Inr recs" and "r \<in> set recs"
    and "x \<in> set (record_subitems r)"
  shows "(\<exists>grids grid sections sec category rows row fileref name entity language date.
       find_elements (document (current_page d))
         ''//div[@class = 'panel-collapse collapse in']//div[@class = 'soby_gridcell ']''
         = Inr grids
     \<and> grid \<in> set grids
     \<and> parse_grid (current_url (current_page d)) grid = Inr r
     \<and> find_elements grid
         ''.//div[@class = 'container submissionarea']/div[@class = 'submissionssection']''
         = Inr sections
     \<and> sec \<in> set sections
     \<and> get_attribute sec ''entitytype'' = Some category
     \<and> category \<in> set RELEVANT_ENTITY_TYPES
     \<and> find_elements sec ''.//div[contains(@class, 'row tablefilerow ')]'' = Inr rows
     \<and> row \<in> set rows
     \<and> get_attribute row ''fileref'' = Some fileref
     \<and> find_text_element row ''.//div[@class = 'col-sm-4 filename']'' = Inr name
     \<and> find_text_element row ''.//div[@class = 'col-sm-4 entity']'' = Inr entity
     \<and> find_text_element row ''.//div[@class = 'col-sm-2 language']'' = Inr language
     \<and> find_text_element row ''.//div[@class = 'col-sm-2 submissiondate']'' = Inr date
     \<and> x = PDict [(''submission_name'', name), (''submission_entity'', entity),
                  (''submission_language'', language), (''submission_date'', date),
                  (''submission_url'',
                   PStr (py_replace (current_url (current_page d))
                           ''/sites/submissionsstaging/Pages/Home.aspx'' fileref))])
   \<and> (\<forall>pre post new.
         current_url (current_page d) = pre @ ''/sites/submissionsstaging/Pages/Home.aspx'' @ post
         \<and> \<not> sublist ''/sites/submissionsstaging/Pages/Home.aspx''
                (pre @ butlast ''/sites/submissionsstaging/Pages/Home.aspx'')
         \<longrightarrow> py_replace (current_url (current_page d))
               ''/sites/submissionsstaging/Pages/Home.aspx'' new
             = pre @ new @ py_replace post ''/sites/submissionsstaging/Pages/Home.aspx'' new)
   \<and> (\<forall>new.
         \<not> sublist ''/sites/submissionsstaging/Pages/Home.aspx'' (current_url (current_page d))
         \<longrightarrow> py_replace (current_url (current_page d))
               ''/sites/submissionsstaging/Pages/Home.aspx'' new
             = current_url (current_page d))"
proof (intro conjI allI impI)
  let ?url = "current_url (current_page d)"
  from parsed_record_grid [OF assms(1,2)] obtain grids grid where
    grids: "find_elements (document (current_page d))
         ''//div[@class = 'panel-collapse collapse in']//div[@class = 'soby_gridcell ']''
         = Inr grids"
    and grid: "grid \<in> set grids" and parse: "parse_grid ?url grid = Inr r" by blast
  from parse_grid_result [OF parse] obtain issue deadline title mandate sections subs where
    sections: "find_elements grid
         ''.//div[@class = 'container submissionarea']/div[@class = 'submissionssection']''
         = Inr sections"
    and loop: "sections_loop ?url sections [] = Inr subs"
    and r: "r = PDict [(''issue'', issue), (''deadline'', deadline), (''title'', title),
                        (''mandate'', mandate), (''submissions'', PDict subs)]" by blast
  from assms(3) r obtain k v where kv: "(k, v) \<in> set subs" "x \<in> set (list_items v)"
    by (auto simp: record_subitems_def)
  have "distinct (dict_keys subs)"
    using sections_loop_distinct [OF loop] by (simp add: dict_keys_def)
  with kv(1) have "map_of subs k = Some v" by (simp add: dict_keys_def)
  from sections_loop_value [OF loop this] obtain pre sec post rows items where
    at: "sections = pre @ sec # post" "relevant_entity_type sec = Some k"
    and rows: "find_elements sec ''.//div[contains(@class, 'row tablefilerow ')]'' = Inr rows"
    and items: "row_items ?url rows items" "v = PList items" by auto
  from at(2) have cat: "get_attribute sec ''entitytype'' = Some k"
    "k \<in> set RELEVANT_ENTITY_TYPES"
    by (auto simp: relevant_entity_type_def split: option.splits if_splits)
  from at(1) have member: "sec \<in> set sections" by simp
  from kv(2) items have "x \<in> set items" by (simp add: list_items_def)
  from row_items_member [OF items(1) this] obtain row where
    row: "row \<in> set rows" "submission_item ?url row = Inr x" by blast
  from submission_item_result [OF row(2)] obtain fileref name entity language date where
    "get_attribute row ''fileref'' = Some fileref"
    "find_text_element row ''.//div[@class = 'col-sm-4 filename']'' = Inr name"
    "find_text_element row ''.//div[@class = 'col-sm-4 entity']'' = Inr entity"
    "find_text_element row ''.//div[@class = 'col-sm-2 language']'' = Inr language"
    "find_text_element row ''.//div[@class = 'col-sm-2 submissiondate']'' = Inr date"
    "x = PDict [(''submission_name'', name), (''submission_entity'', entity),
                  (''submission_language'', language), (''submission_date'', date),
                  (''submission_url'',
                   PStr (py_replace ?url ''/sites/submissionsstaging/Pages/Home.aspx'' fileref))]"
    by blast
  with grids grid parse sections member cat rows row(1)
  show "\<exists>grids grid sections sec category rows row fileref name entity language date.
       find_elements (document (current_page d))
         ''//div[@class = 'panel-collapse collapse in']//div[@class = 'soby_gridcell ']''
         = Inr grids
     \<and> grid \<in> set grids
     \<and> parse_grid (current_url (current_page d)) grid = Inr r
     \<and> find_elements grid
         ''.//div[@class = 'container submissionarea']/div[@class = 'submissionssection']''
         = Inr sections
     \<and> sec \<in> set sections
     \<and> get_attribute sec ''entitytype'' = Some category
     \<and> category \<in> set RELEVANT_ENTITY_TYPES
     \<and> find_elements sec ''.//div[contains(@class, 'row tablefilerow ')]'' = Inr rows
     \<and> row \<in> set rows
     \<and> get_attribute row ''fileref'' = Some fileref
     \<and> find_text_element row ''.//div[@class = 'col-sm-4 filename']'' = Inr name
     \<and> find_text_element row ''.//div[@class = 'col-sm-4 entity']'' = Inr entity
     \<and> find_text_element row ''.//div[@class = 'col-sm-2 language']'' = Inr language
     \<and> find_text_element row ''.//div[@class = 'col-sm-2 submissiondate']'' = Inr date
     \<and> x = PDict [(''submission_name'', name), (''submission_entity'', entity),
                  (''submission_language'', language), (''submission_date'', date),
                  (''submission_url'',
                   PStr (py_replace (current_url (current_page d))
                           ''/sites/submissionsstaging/Pages/Home.aspx'' fileref))]"
    by blast
next
  fix pre post new
  assume a: "current_url (current_page d) = pre @ ''/sites/submissionsstaging/Pages/Home.aspx'' @ post
         \<and> \<not> sublist ''/sites/submissionsstaging/Pages/Home.aspx''
                (pre @ butlast ''/sites/submissionsstaging/Pages/Home.aspx'')"
  have ne: "''/sites/submissionsstaging/Pages/Home.aspx'' \<noteq> []" by simp
  from a have "py_replace (pre @ ''/sites/submissionsstaging/Pages/Home.aspx'' @ post)
               ''/sites/submissionsstaging/Pages/Home.aspx'' new
             = pre @ new @ py_replace post ''/sites/submissionsstaging/Pages/Home.aspx'' new"
    by (intro py_replace_first_occurrence [OF ne]) simp
  with a show "py_replace (current_url (current_page d))
               ''/sites/submissionsstaging/Pages/Home.aspx'' new
             = pre @ new @ py_replace post ''/sites/submissionsstaging/Pages/Home.aspx'' new"
    by simp
next
  fix new
  assume "\<not> sublist ''/sites/submissionsstaging/Pages/Home.aspx'' (current_url (current_page d))"
  then show "py_replace (current_url (current_page d))
               ''/sites/submissionsstaging/Pages/Home.aspx'' new
             = current_url (current_page d)"
    by (intro py_replace_no_occurrence) simp_all
qed

theorem submission_url_is_string_witness:
  "priv_parse_submissions ex_driver = Inr [ex_record] \<and> ex_record \<in> set [ex_record]
   \<and> ex_item \<in> set (record_subitems ex_record)
   \<and> (\<exists>grids grid sections sec category rows row fileref name entity language date.
       find_elements (document (current_page ex_driver))
         ''//div[@class = 'panel-collapse collapse in']//div[@class = 'soby_gridcell ']''
         = Inr grids
     \<and> grid \<in> set grids
     \<and> parse_grid (current_url (current_page ex_driver)) grid = Inr ex_record
     \<and> find_elements grid
         ''.//div[@class = 'container submissionarea']/div[@class = 'submissionssection']''
         = Inr sections
     \<and> sec \<in> set sections
     \<and> get_attribute sec ''entitytype'' = Some category
     \<and> category \<in> set RELEVANT_ENTITY_TYPES
     \<and> find_elements sec ''.//div[contains(@class, 'row tablefilerow ')]'' = Inr rows
     \<and> row \<in> set rows
     \<and> get_attribute row ''fileref'' = Some fileref
     \<and> find_text_element row ''.//div[@class = 'col-sm-4 filename']'' = Inr name
     \<and> find_text_element row ''.//div[@class = 'col-sm-4 entity']'' = Inr entity
     \<and> find_text_element row ''.//div[@class = 'col-sm-2 language']'' = Inr language
     \<and> find_text_element row ''.//div[@class = 'col-sm-2 submissiondate']'' = Inr date
     \<and> ex_item = PDict [(''submission_name'', name), (''submission_entity'', entity),
                  (''submission_language'', language), (''submission_date'', date),
                  (''submission_url'',
                   PStr (py_replace (current_url (current_page ex_driver))
                           ''/sites/submissionsstaging/Pages/Home.aspx'' fileref))])
   \<and> current_url (current_page ex_driver) =
       ''https://www4.unfccc.int'' @ ''/sites/submissionsstaging/Pages/Home.aspx'' @ []
   \<and> \<not> sublist ''/sites/submissionsstaging/Pages/Home.aspx''
          (''https://www4.unfccc.int'' @ butlast ''/sites/submissionsstaging/Pages/Home.aspx'')
   \<and> py_replace (current_url (current_page ex_driver))
         ''/sites/submissionsstaging/Pages/Home.aspx'' ''/sites/submissionsstaging/Documents/a.pdf''
       = ''https://www4.unfccc.int/sites/submissionsstaging/Documents/a.pdf''
   \<and> priv_parse_submissions ex_other_driver = Inr [ex_other_record]
   \<and> ex_other_record \<in> set [ex_other_record]
   \<and> ex_other_item \<in> set (record_subitems ex_other_record)
   \<and> \<not> sublist ''/sites/submissionsstaging/Pages/Home.aspx''
          (current_url (current_page ex_other_driver))
   \<and> py_replace (current_url (current_page ex_other_driver))
         ''/sites/submissionsstaging/Pages/Home.aspx'' ''/sites/submissionsstaging/Documents/a.pdf''
       = ''https://unfccc.int/submissions''"
proof -
  have a: "ex_record \<in> set [ex_record]" by simp
  have b: "ex_item \<in> set (record_subitems ex_record)"
    by (simp add: record_subitems_def ex_record_def list_items_def)
  note here = submission_url_is_string [OF ex_driver_parse a b]
  have u: "current_url (current_page ex_driver) =
       ''https://www4.unfccc.int'' @ ''/sites/submissionsstaging/Pages/Home.aspx'' @ []"
    by (simp add: ex_driver_def ex_page_def current_page_def SUBMISSIONS_URL_def)
  have n: "\<not> sublist ''/sites/submissionsstaging/Pages/Home.aspx''
          (''https://www4.unfccc.int'' @ butlast ''/sites/submissionsstaging/Pages/Home.aspx'')"
    by code_simp
  have e: "py_replace [] ''/sites/submissionsstaging/Pages/Home.aspx'' new = []" for new
    by (simp add: py_replace_def)
  from here [THEN conjunct2, THEN conjunct1, rule_format,
      of "''https://www4.unfccc.int''" "[]" "''/sites/submissionsstaging/Documents/a.pdf''",
      OF conjI [OF u n]]
  have c: "py_replace (current_url (current_page ex_driver))
         ''/sites/submissionsstaging/Pages/Home.aspx'' ''/sites/submissionsstaging/Documents/a.pdf''
       = ''https://www4.unfccc.int/sites/submissionsstaging/Documents/a.pdf''"
    by (simp add: e)
  have a': "ex_other_record \<in> set [ex_other_record]" by simp
  have b': "ex_other_item \<in> set (record_subitems ex_other_record)"
    by (simp add: record_subitems_def ex_other_record_def list_items_def)
  note there = submission_url_is_string [OF ex_other_driver_parse a' b']
  have u': "current_url (current_page ex_other_driver) = ''https://unfccc.int/submissions''"
    by (simp add: ex_other_driver_def current_page_def)
  have n': "\<not> sublist ''/sites/submissionsstaging/Pages/Home.aspx''
          (current_url (current_page ex_other_driver))"
    unfolding u' by code_simp
  from there [THEN conjunct2, THEN conjunct2, rule_format,
      of "''/sites/submissionsstaging/Documents/a.pdf''", OF n']
  have c': "py_replace (current_url (current_page ex_other_driver))
         ''/sites/submissionsstaging/Pages/Home.aspx'' ''/sites/submissionsstaging/Documents/a.pdf''
       = ''https://unfccc.int/submissions''"
    by (simp add: u')
  from here have first: "\<exists>grids grid sections sec category rows row fileref name entity language date.
       find_elements (document (current_page ex_driver))
         ''//div[@class = 'panel-collapse collapse in']//div[@class = 'soby_gridcell ']''
         = Inr grids
     \<and> grid \<in> set grids
     \<and> parse_grid (current_url (current_page ex_driver)) grid = Inr ex_record
     \<and> find_elements grid
         ''.//div[@class = 'container submissionarea']/div[@class = 'submissionssection']''
         = Inr sections
     \<and> sec \<in> set sections
     \<and> get_attribute sec ''entitytype'' = Some category
     \<and> category \<in> set RELEVANT_ENTITY_TYPES
     \<and> find_elements sec ''.//div[contains(@class, 'row tablefilerow ')]'' = Inr rows
     \<and> row \<in> set rows
     \<and> get_attribute row ''fileref'' = Some fileref
     \<and> find_text_element row ''.//div[@class = 'col-sm-4 filename']'' = Inr name
     \<and> find_text_element row ''.//div[@class = 'col-sm-4 entity']'' = Inr entity
     \<and> find_text_element row ''.//div[@class = 'col-sm-2 language']'' = Inr language
     \<and> find_text_element row ''.//div[@class = 'col-sm-2 submissiondate']'' = Inr date
     \<and> ex_item = PDict [(''submission_name'', name), (''submission_entity'', entity),
                  (''submission_language'', language), (''submission_date'', date),
                  (''submission_url'',
                   PStr (py_replace (current_url (current_page ex_driver))
                           ''/sites/submissionsstaging/Pages/Home.aspx'' fileref))]"
    by (rule conjunct1)
  show ?thesis
    by (intro conjI ex_driver_parse a b first u n c ex_other_driver_parse a' b' n' c')
qed

text \<open>
  C2. The keys of the \<open>submissions\<close> dictionary of every record that
  \<open>_parse_submissions\<close> returns are in \<open>RELEVANT_ENTITY_TYPES\<close>; and a section
  whose \<open>entitytype\<close> attribute is absent or not in that list leaves the dictionary
  as it would be without the section.
\<close>

theorem submissions_keys_relevant:
  "(priv_parse_submissions d = Inr recs \<longrightarrow>
      (\<forall>r\<in>set recs. \<exists>subs. record_submissions r = Some subs
          \<and> set (dict_keys subs) \<subseteq> set RELEVANT_ENTITY_TYPES))
   \<and> ((\<forall>et. get_attribute s ''entitytype'' = Some et \<longrightarrow> et \<notin> set RELEVANT_ENTITY_TYPES) \<longrightarrow>
        sections_loop url (pre @ s # post) subs0 = sections_loop url (pre @ post) subs0)"
proof (intro conjI impI ballI)
  fix r
  assume "priv_parse_submissions d = Inr recs" and "r \<in> set recs"
  from parsed_record [OF this] obtain secs subs issue deadline title mandate where
    loop: "sections_loop (current_url (current_page d)) secs [] = Inr subs"
    and r: "r = PDict [(''issue'', issue), (''deadline'', deadline), (''title'', title),
                        (''mandate'', mandate), (''submissions'', PDict subs)]" by blast
  from sections_loop_keys [OF loop] have "set (dict_keys subs) \<subseteq> set RELEVANT_ENTITY_TYPES"
    by (auto simp: dict_keys_def dest: relevant_entity_type_member)
  with r show "\<exists>subs. record_submissions r = Some subs
          \<and> set (dict_keys subs) \<subseteq> set RELEVANT_ENTITY_TYPES" by simp
next
  assume "\<forall>et. get_attribute s ''entitytype'' = Some et \<longrightarrow> et \<notin> set RELEVANT_ENTITY_TYPES"
  then have "relevant_entity_type s = None"
    by (auto simp: relevant_entity_type_def split: option.splits)
  then show "sections_loop url (pre @ s # post) subs0 = sections_loop url (pre @ post) subs0"
    by (rule sections_loop_drop_middle)
qed

theorem submissions_keys_relevant_witness:
  "priv_parse_submissions ex_driver = Inr [ex_record]
   \<and> record_submissions ex_record = Some [(''Party'', PList [ex_item]), (''NGO'', PList [])]
   \<and> set (dict_keys [(''Party'', PList [ex_item]), (''NGO'', PList [])]) \<subseteq> set RELEVANT_ENTITY_TYPES
   \<and> get_attribute ex_internal ''entitytype'' = Some ''Internal''
   \<and> ''Internal'' \<notin> set RELEVANT_ENTITY_TYPES
   \<and> sections_loop SUBMISSIONS_URL ([ex_party] @ ex_internal # [ex_ngo]) [] =
       sections_loop SUBMISSIONS_URL ([ex_party] @ [ex_ngo]) []"
proof -
  have a: "get_attribute ex_internal ''entitytype'' = Some ''Internal''"
    by (simp add: get_attribute_def ex_internal_def)
  have b: "''Internal'' \<notin> set RELEVANT_ENTITY_TYPES"
    by (simp add: RELEVANT_ENTITY_TYPES_def)
  have c: "record_submissions ex_record = Some [(''Party'', PList [ex_item]), (''NGO'', PList [])]"
    by (simp add: ex_record_def)
  from submissions_keys_relevant [of ex_driver "[ex_record]" ex_internal SUBMISSIONS_URL
      "[ex_party]" "[ex_ngo]" "[]"]
  show ?thesis using ex_driver_parse a b c by simp
qed

text \<open>
  C9, as the claim states it, fails: the first section of this grid cell has the
  category \<open>Party\<close> and no rows, and the record binds \<open>Party\<close> to the sub-item of
  the second section, which has the same category.
\<close>

theorem empty_group_rebound_counterexample:
  "find_elements ex_dup_grid
     ''.//div[@class = 'container submissionarea']/div[@class = 'submissionssection']''
     = Inr [ex_party_empty, ex_party]
   \<and> get_attribute ex_party_empty ''entitytype'' = Some ''Party''
   \<and> ''Party'' \<in> set RELEVANT_ENTITY_TYPES
   \<and> find_elements ex_party_empty ''.//div[contains(@class, 'row tablefilerow ')]'' = Inr []
   \<and> priv_parse_submissions ex_dup_driver =
       Inr [PDict [(''issue'', PNone), (''deadline'', PNone), (''title'', PNone),
                   (''mandate'', PNone),
                   (''submissions'', PDict [(''Party'', PList [ex_item])])]]
   \<and> PList [ex_item] \<noteq> PList []"
  using ex_dup_driver_parse
  by (simp add: ex_dup_grid_def ex_party_empty_def find_elements_def get_attribute_def
      RELEVANT_ENTITY_TYPES_def)

text \<open>
  C9, amended. A section with a category of \<open>RELEVANT_ENTITY_TYPES\<close> and no rows
  puts its category among the keys of the record's \<open>submissions\<close>; the key is bound
  to the empty list when no later section of the grid cell has the same category.
\<close>

theorem empty_group_key_present:
  assumes "priv_parse_submissions d = Inr recs"
    and "find_elements (document (current_page d))
           ''//div[@class = 'panel-collapse collapse in']//div[@class = 'soby_gridcell ']'' = Inr gs"
    and "n < length gs"
    and "find_elements (gs ! n)
           ''.//div[@class = 'container submissionarea']/div[@class = 'submissionssection']''
         = Inr (pre @ s # post)"
    and "get_attribute s ''entitytype'' = Some et"
    and "et \<in> set RELEVANT_ENTITY_TYPES"
    and "find_elements s ''.//div[contains(@class, 'row tablefilerow ')]'' = Inr []"
  shows "\<exists>subs. record_submissions (recs ! n) = Some subs \<and> et \<in> set (dict_keys subs)
           \<and> ((\<forall>t\<in>set post. get_attribute t ''entitytype'' \<noteq> Some et) \<longrightarrow>
                map_of subs et = Some (PList []))"
proof -
  let ?url = "current_url (current_page d)"
  from priv_parse_submissions_result [OF assms(1)] assms(2) have
    "list_all2 (\<lambda>g r. parse_grid ?url g = Inr r) gs recs" by auto
  with assms(3) have "parse_grid ?url (gs ! n) = Inr (recs ! n)"
    by (auto simp: list_all2_conv_all_nth)
  from parse_grid_result [OF this] assms(4) obtain subs issue deadline title mandate where
    loop: "sections_loop ?url (pre @ s # post) [] = Inr subs"
    and r: "recs ! n = PDict [(''issue'', issue), (''deadline'', deadline), (''title'', title),
                        (''mandate'', mandate), (''submissions'', PDict subs)]" by auto
  have rel: "relevant_entity_type s = Some et"
    using assms(5,6) by (simp add: relevant_entity_type_def)
  from sections_loop_keys [OF loop] rel have key: "et \<in> set (dict_keys subs)" by auto
  from loop obtain m where "sections_loop ?url (s # post) m = Inr subs"
    by (auto simp: sections_loop_append bind_exn_eq_Inr)
  from sections_loop_kept [OF rel this] assms(7) have
    rest: "sections_loop ?url post (dict_set et (PList []) m) = Inr subs"
    by (auto simp: row_items_def)
  have "map_of subs et = Some (PList [])"
    if "\<forall>t\<in>set post. get_attribute t ''entitytype'' \<noteq> Some et"
  proof -
    from that have "\<forall>t\<in>set post. relevant_entity_type t \<noteq> Some et"
      by (auto simp: relevant_entity_type_def split: option.splits if_splits)
    from sections_loop_untouched [OF rest this] show ?thesis
      by (simp add: map_of_dict_set)
  qed
  with r key show ?thesis by simp
qed

theorem empty_group_key_present_witness:
  "priv_parse_submissions ex_driver = Inr [ex_record]
   \<and> find_elements (document (current_page ex_driver))
        ''//div[@class = 'panel-collapse collapse in']//div[@class = 'soby_gridcell ']'' = Inr [ex_grid]
   \<and> (0::nat) < length [ex_grid]
   \<and> find_elements ([ex_grid] ! 0)
        ''.//div[@class = 'container submissionarea']/div[@class = 'submissionssection']''
       = Inr ([ex_party, ex_internal] @ ex_ngo # [])
   \<and> get_attribute ex_ngo ''entitytype'' = Some ''NGO''
   \<and> ''NGO'' \<in> set RELEVANT_ENTITY_TYPES
   \<and> find_elements ex_ngo ''.//div[contains(@class, 'row tablefilerow ')]'' = Inr []
   \<and> (\<exists>subs. record_submissions ([ex_record] ! 0) = Some subs \<and> ''NGO'' \<in> set (dict_keys subs)
         \<and> map_of subs ''NGO'' = Some (PList []))"
proof -
  have a: "find_elements (document (current_page ex_driver))
        ''//div[@class = 'panel-collapse collapse in']//div[@class = 'soby_gridcell ']'' = Inr [ex_grid]"
    by (simp add: ex_driver_def ex_page_def current_page_def find_elements_def)
  have b: "(0::nat) < length [ex_grid]" by simp
  have c: "find_elements ([ex_grid] ! 0)
        ''.//div[@class = 'container submissionarea']/div[@class = 'submissionssection']''
       = Inr ([ex_party, ex_internal] @ ex_ngo # [])"
    by (simp add: ex_grid_def find_elements_def)
  have e: "get_attribute ex_ngo ''entitytype'' = Some ''NGO''"
    by (simp add: ex_ngo_def get_attribute_def)
  have f: "''NGO'' \<in> set RELEVANT_ENTITY_TYPES"
    by (simp add: RELEVANT_ENTITY_TYPES_def)
  have g: "find_elements ex_ngo ''.//div[contains(@class, 'row tablefilerow ')]'' = Inr []"
    by (simp add: ex_ngo_def find_elements_def)
  from empty_group_key_present [OF ex_driver_parse a b c e f g]
  show ?thesis using ex_driver_parse a b c e f g by simp
qed

section \<open>Pagination: what the loop computes\<close>

lemma go_to_next_page_result:
  "go_to_next_page d = Inr d' \<Longrightarrow> \<exists>n. d' = d\<lparr>at_page := n\<rparr>"
  by (auto simp: go_to_next_page_def bind_exn_eq_Inr)

lemma page_records_here: "page_records d (at_page d) = priv_parse_submissions d"
  by (simp add: page_records_def)

lemma page_records_moved: "page_records (d\<lparr>at_page := m\<rparr>) n = page_records d n"
  by (simp add: page_records_def)

lemma pages_loop_visits:
  "visits d ps \<Longrightarrow> \<forall>n\<in>set ps. page_records d n = Inr (P n) \<Longrightarrow>
   pages_loop d acc = Some (Inr (acc @ concat (map P ps)))"
proof (induction arbitrary: acc rule: visits.induct)
  case (visits_last d e)
  then have "priv_parse_submissions d = Inr (P (at_page d))"
    by (simp add: page_records_here)
  with visits_last show ?case
    by (subst pages_loop.simps) simp
next
  case (visits_next d d' area ps)
  from visits_next.prems have here: "priv_parse_submissions d = Inr (P (at_page d))"
    by (simp add: page_records_here)
  from go_to_next_page_result [OF visits_next.hyps(1)] obtain m where "d' = d\<lparr>at_page := m\<rparr>" ..
  with visits_next.prems have "\<forall>n\<in>set ps. page_records d' n = Inr (P n)"
    by (simp add: page_records_moved)
  from visits_next.IH [OF this] have
    "pages_loop d' (acc @ P (at_page d)) = Some (Inr ((acc @ P (at_page d)) @ concat (map P ps)))" .
  with here visits_next.hyps(1,2) show ?case
    by (subst pages_loop.simps) simp
qed

lemma pages_loop_normal_end:
  assumes "pages_loop d0 acc0 = Some y0"
  shows "\<forall>out. y0 = Inr out \<longrightarrow>
           (\<exists>ps P. visits d0 ps \<and> (\<forall>n\<in>set ps. page_records d0 n = Inr (P n))
                  \<and> out = acc0 @ concat (map P ps))"
proof (rule pages_loop.raw_induct
    [where P = "\<lambda>d acc y. \<forall>out. y = Inr out \<longrightarrow>
           (\<exists>ps P. visits d ps \<and> (\<forall>n\<in>set ps. page_records d n = Inr (P n))
                  \<and> out = acc @ concat (map P ps))", OF _ assms])
  fix loop :: "driver \<Rightarrow> pyval list \<Rightarrow> (exn + pyval list) option"
  fix d acc y
  assume IH: "\<And>d acc y. loop d acc = Some y \<Longrightarrow>
      \<forall>out. y = Inr out \<longrightarrow>
           (\<exists>ps P. visits d ps \<and> (\<forall>n\<in>set ps. page_records d n = Inr (P n))
                  \<and> out = acc @ concat (map P ps))"
  assume body: "(case priv_parse_submissions d of
        Inl e \<Rightarrow> Some (Inl e)
      | Inr rs \<Rightarrow>
          (case go_to_next_page d of
             Inl e \<Rightarrow> Some (Inr (acc @ rs))
           | Inr d' \<Rightarrow>
               (case wait_for_call_area d' of
                  Inl e \<Rightarrow> Some (Inl e)
                | Inr area \<Rightarrow> loop d' (acc @ rs)))) = Some y"
  show "\<forall>out. y = Inr out \<longrightarrow>
           (\<exists>ps P. visits d ps \<and> (\<forall>n\<in>set ps. page_records d n = Inr (P n))
                  \<and> out = acc @ concat (map P ps))"
  proof (intro allI impI)
    fix out
    assume y: "y = Inr out"
    from body y obtain recs where recs: "priv_parse_submissions d = Inr recs"
      by (cases "priv_parse_submissions d") auto
    show "\<exists>ps P. visits d ps \<and> (\<forall>n\<in>set ps. page_records d n = Inr (P n))
                  \<and> out = acc @ concat (map P ps)"
    proof (cases "go_to_next_page d")
      case (Inl e)
      with body recs y have "out = acc @ recs" by simp
      moreover have "visits d [at_page d]" using Inl by (rule visits_last)
      ultimately have "visits d [at_page d]
          \<and> (\<forall>n\<in>set [at_page d]. page_records d n = Inr ((\<lambda>n. recs) n))
          \<and> out = acc @ concat (map (\<lambda>n. recs) [at_page d])"
        using recs by (simp add: page_records_here)
      then show ?thesis by (intro exI [of _ "[at_page d]"] exI [of _ "\<lambda>n. recs"])
    next
      case (Inr d')
      with body recs y obtain area where area: "wait_for_call_area d' = Inr area"
        and rest: "loop d' (acc @ recs) = Some y"
        by (cases "wait_for_call_area d'") auto
      from IH [OF rest] y obtain ps P where ps: "visits d' ps"
        and P: "\<forall>n\<in>set ps. page_records d' n = Inr (P n)"
        and out: "out = (acc @ recs) @ concat (map P ps)" by blast
      from go_to_next_page_result [OF Inr] obtain m where "d' = d\<lparr>at_page := m\<rparr>" ..
      with P have P': "\<forall>n\<in>set ps. page_records d n = Inr (P n)"
        by (simp add: page_records_moved)
      let ?P = "P(at_page d := recs)"
      have same: "map ?P ps = map P ps"
        using P' recs by (auto simp: page_records_here [symmetric])
      have "visits d (at_page d # ps)"
        using Inr area ps by (rule visits_next)
      moreover have "\<forall>n\<in>set (at_page d # ps). page_records d n = Inr (?P n)"
        using P' recs by (auto simp: page_records_here)
      moreover have "out = acc @ concat (map ?P (at_page d # ps))"
        unfolding list.map same using out by simp
      ultimately show ?thesis
        by (intro exI [of _ "at_page d # ps"] exI [of _ "?P"]) simp
    qed
  qed
qed

lemma ex_two_pages_visits: "visits ex_two_pages [0, 1]"
proof -
  have a: "go_to_next_page ex_two_pages = Inr (ex_two_pages\<lparr>at_page := 1\<rparr>)"
    by (simp add: go_to_next_page_def ex_two_pages_def current_page_def ex_first_page_def
        find_element_def find_elements_def)
  have b: "wait_for_call_area (ex_two_pages\<lparr>at_page := 1\<rparr>) = Inr ex_field"
    by (simp add: wait_for_call_area_def ex_two_pages_def current_page_def ex_last_page_def
        find_element_def find_elements_def)
  have c: "go_to_next_page (ex_two_pages\<lparr>at_page := 1\<rparr>) = Inl NoSuchElementException"
    by (simp add: go_to_next_page_def ex_two_pages_def current_page_def ex_last_page_def
        find_element_def find_elements_def)
  have "visits (ex_two_pages\<lparr>at_page := 1\<rparr>) [at_page (ex_two_pages\<lparr>at_page := 1\<rparr>)]"
    using c by (rule visits_last)
  with a b have "visits ex_two_pages (at_page ex_two_pages # [1])"
    by (intro visits_next) simp_all
  then show ?thesis by (simp add: ex_two_pages_def)
qed

lemma ex_two_pages_first: "page_records ex_two_pages 0 = Inr [ex_record, ex_dup_record]"
  unfolding page_records_def by code_simp

lemma ex_two_pages_second: "page_records ex_two_pages 1 = Inr [ex_record]"
  unfolding page_records_def by code_simp

lemma ex_stuck_loop: "pages_loop ex_stuck_driver [] = Some (Inr [ex_record])"
  by code_simp

lemma ex_timeout_parse:
  "priv_parse_submissions ex_timeout_driver = Inr [ex_record, ex_dup_record]"
  by code_simp

lemma ex_timeout_next:
  "go_to_next_page ex_timeout_driver = Inr (ex_timeout_driver\<lparr>at_page := 1\<rparr>)"
  by (simp add: go_to_next_page_def ex_timeout_driver_def current_page_def ex_first_page_def
      find_element_def find_elements_def)

lemma ex_timeout_area:
  "find_element (document (current_page (ex_timeout_driver\<lparr>at_page := 1\<rparr>)))
     ''//div[@class = 'submissioncallarea']'' = Inl NoSuchElementException"
  by (simp add: ex_timeout_driver_def current_page_def ex_blank_page_def
      find_element_def find_elements_def)

lemma ex_last_page_no_link:
  "find_element (document (current_page (ex_two_pages\<lparr>at_page := 1\<rparr>)))
     ''//a[contains(@onclick, '.GoToNextPage()')]'' = Inl NoSuchElementException"
  by (simp add: ex_two_pages_def current_page_def ex_last_page_def
      find_element_def find_elements_def)

section \<open>Pagination: the aggregate and the end of the loop\<close>

text \<open>
  C3. When the loop of \<open>parse_submissions\<close> visits the pages \<open>ps\<close> and is then left,
  and parsing page \<open>n\<close> gives the records \<open>P n\<close>, the function returns the dictionary
  with \<open>data_source\<close> bound to \<open>SUBMISSIONS_URL\<close>, \<open>collected_at\<close> bound to the
  one reading of the clock made after the loop, and \<open>submissions_data\<close> bound to
  the records of the pages in the order visited, each page's records in their order.
\<close>

theorem aggregate_is_concatenation:
  assumes "visits d ps" and "\<forall>n\<in>set ps. page_records d n = Inr (P n)"
  shows "parse_submissions d now =
           Some (Inr (PDict [(''data_source'', PStr SUBMISSIONS_URL),
                             (''collected_at'', PStr now),
                             (''submissions_data'', PList (concat (map P ps)))]))"
  using pages_loop_visits [OF assms, of "[]"] by (simp add: parse_submissions_def)

theorem aggregate_is_concatenation_witness:
  "visits ex_two_pages [0, 1]
   \<and> page_records ex_two_pages 0 = Inr [ex_record, ex_dup_record]
   \<and> page_records ex_two_pages 1 = Inr [ex_record]
   \<and> parse_submissions ex_two_pages ''04-11-2026 10:00:00'' =
       Some (Inr (PDict [(''data_source'', PStr SUBMISSIONS_URL),
                         (''collected_at'', PStr ''04-11-2026 10:00:00''),
                         (''submissions_data'', PList [ex_record, ex_dup_record, ex_record])]))"
proof -
  have "\<forall>n\<in>set [0, 1]. page_records ex_two_pages n =
          Inr ((\<lambda>n. if n = 0 then [ex_record, ex_dup_record] else [ex_record]) n)"
    using ex_two_pages_first ex_two_pages_second by simp
  from aggregate_is_concatenation [OF ex_two_pages_visits this, of "''04-11-2026 10:00:00''"]
  show ?thesis using ex_two_pages_visits ex_two_pages_first ex_two_pages_second by simp
qed

text \<open>
  C4, as the claim states it, fails: on this page the next-page link is present, the
  click on it raises, and the loop is left as if there were no further page; the
  records collected so far are returned.
\<close>

theorem click_raises_counterexample:
  "find_element (document (current_page ex_stuck_driver))
      ''//a[contains(@onclick, '.GoToNextPage()')]'' = Inr ex_link
   \<and> next_click (current_page ex_stuck_driver) = Inl WebDriverException
   \<and> pages_loop ex_stuck_driver [] = Some (Inr [ex_record])"
  using ex_stuck_loop
  by (simp add: ex_stuck_driver_def ex_stuck_page_def current_page_def find_element_def
      find_elements_def)

text \<open>
  C4, amended. The loop is left with the records collected exactly when, after a
  chain of pages that were parsed and whose next-page link was found and clicked and
  whose successor showed the call area, a page is parsed on which the lookup of the
  link or the click raises; the lookup or click raises \<open>e\<close> exactly when the lookup
  raises \<open>e\<close> (the link is absent for \<open>NoSuchElementException\<close>) or the link is found
  and the click raises \<open>e\<close>; and when the link is found and clicked and the call area
  does not appear on the page loaded, the function raises \<open>TimeoutException\<close>.
\<close>

theorem pages_loop_left_iff:
  "(pages_loop d acc = Some (Inr out) \<longleftrightarrow>
      (\<exists>ps P. visits d ps \<and> (\<forall>n\<in>set ps. page_records d n = Inr (P n))
             \<and> out = acc @ concat (map P ps)))
   \<and> (go_to_next_page d = Inl e \<longleftrightarrow>
        find_element (document (current_page d)) ''//a[contains(@onclick, '.GoToNextPage()')]'' = Inl e
        \<or> (\<exists>nxt. find_element (document (current_page d))
                    ''//a[contains(@onclick, '.GoToNextPage()')]'' = Inr nxt
                  \<and> next_click (current_page d) = Inl e))
   \<and> (priv_parse_submissions d = Inr recs \<and> go_to_next_page d = Inr d'
        \<and> find_element (document (current_page d')) ''//div[@class = 'submissioncallarea']''
            = Inl NoSuchElementException
        \<longrightarrow> pages_loop d acc = Some (Inl TimeoutException)
            \<and> parse_submissions d now = Some (Inl TimeoutException))"
proof (intro conjI)
  show "pages_loop d acc = Some (Inr out) \<longleftrightarrow>
      (\<exists>ps P. visits d ps \<and> (\<forall>n\<in>set ps. page_records d n = Inr (P n))
             \<and> out = acc @ concat (map P ps))"
    using pages_loop_normal_end [of d acc "Inr out"] pages_loop_visits [of d _ _ acc]
    by blast
next
  show "go_to_next_page d = Inl e \<longleftrightarrow>
        find_element (document (current_page d)) ''//a[contains(@onclick, '.GoToNextPage()')]'' = Inl e
        \<or> (\<exists>nxt. find_element (document (current_page d))
                    ''//a[contains(@onclick, '.GoToNextPage()')]'' = Inr nxt
                  \<and> next_click (current_page d) = Inl e)"
    unfolding go_to_next_page_def
    by (cases "find_element (document (current_page d)) ''//a[contains(@onclick, '.GoToNextPage()')]''";
        cases "next_click (current_page d)") simp_all
next
  show "priv_parse_submissions d = Inr recs \<and> go_to_next_page d = Inr d'
        \<and> find_element (document (current_page d')) ''//div[@class = 'submissioncallarea']''
            = Inl NoSuchElementException
        \<longrightarrow> pages_loop d acc = Some (Inl TimeoutException)
            \<and> parse_submissions d now = Some (Inl TimeoutException)"
  proof (intro impI, elim conjE)
    assume a: "priv_parse_submissions d = Inr recs" "go_to_next_page d = Inr d'"
      "find_element (document (current_page d')) ''//div[@class = 'submissioncallarea']''
            = Inl NoSuchElementException"
    then have w: "wait_for_call_area d' = Inl TimeoutException"
      by (simp add: wait_for_call_area_def)
    have "pages_loop d acc' = Some (Inl TimeoutException)" for acc'
      using a w by (subst pages_loop.simps) simp
    then show "pages_loop d acc = Some (Inl TimeoutException)
            \<and> parse_submissions d now = Some (Inl TimeoutException)"
      by (simp add: parse_submissions_def)
  qed
qed

theorem pages_loop_left_iff_witness:
  "visits ex_two_pages [0, 1]
   \<and> page_records ex_two_pages 0 = Inr [ex_record, ex_dup_record]
   \<and> page_records ex_two_pages 1 = Inr [ex_record]
   \<and> pages_loop ex_two_pages [] = Some (Inr [ex_record, ex_dup_record, ex_record])
   \<and> find_element (document (current_page (ex_two_pages\<lparr>at_page := 1\<rparr>)))
        ''//a[contains(@onclick, '.GoToNextPage()')]'' = Inl NoSuchElementException
   \<and> go_to_next_page (ex_two_pages\<lparr>at_page := 1\<rparr>) = Inl NoSuchElementException
   \<and> priv_parse_submissions ex_timeout_driver = Inr [ex_record, ex_dup_record]
   \<and> go_to_next_page ex_timeout_driver = Inr (ex_timeout_driver\<lparr>at_page := 1\<rparr>)
   \<and> find_element (document (current_page (ex_timeout_driver\<lparr>at_page := 1\<rparr>)))
        ''//div[@class = 'submissioncallarea']'' = Inl NoSuchElementException
   \<and> pages_loop ex_timeout_driver [] = Some (Inl TimeoutException)
   \<and> parse_submissions ex_timeout_driver ''04-11-2026 10:00:00'' = Some (Inl TimeoutException)"
proof -
  have "visits ex_two_pages [0, 1]
      \<and> (\<forall>n\<in>set [0, 1]. page_records ex_two_pages n =
            Inr ((\<lambda>n. if n = 0 then [ex_record, ex_dup_record] else [ex_record]) n))
      \<and> [ex_record, ex_dup_record, ex_record] =
          [] @ concat (map (\<lambda>n. if n = 0 then [ex_record, ex_dup_record] else [ex_record])
                         [0, 1::nat])"
    using ex_two_pages_visits ex_two_pages_first ex_two_pages_second by simp
  then have "\<exists>ps P. visits ex_two_pages ps
      \<and> (\<forall>n\<in>set ps. page_records ex_two_pages n = Inr (P n))
      \<and> [ex_record, ex_dup_record, ex_record] = [] @ concat (map P ps)"
    by (intro exI [of _ "[0, 1]"]
        exI [of _ "\<lambda>n. if n = 0 then [ex_record, ex_dup_record] else [ex_record]"])
  with pages_loop_left_iff [of ex_two_pages "[]" "[ex_record, ex_dup_record, ex_record]"]
  have a: "pages_loop ex_two_pages [] = Some (Inr [ex_record, ex_dup_record, ex_record])"
    by blast
  from pages_loop_left_iff [of "ex_two_pages\<lparr>at_page := 1\<rparr>" _ _ NoSuchElementException]
    ex_last_page_no_link
  have b: "go_to_next_page (ex_two_pages\<lparr>at_page := 1\<rparr>) = Inl NoSuchElementException"
    by blast
  from pages_loop_left_iff [of ex_timeout_driver "[]" _ _ "[ex_record, ex_dup_record]"
      "ex_timeout_driver\<lparr>at_page := 1\<rparr>" "''04-11-2026 10:00:00''"]
    ex_timeout_parse ex_timeout_next ex_timeout_area
  have c: "pages_loop ex_timeout_driver [] = Some (Inl TimeoutException)
      \<and> parse_submissions ex_timeout_driver ''04-11-2026 10:00:00'' = Some (Inl TimeoutException)"
    by blast
  show ?thesis
    using a b c ex_two_pages_visits ex_two_pages_first ex_two_pages_second
      ex_last_page_no_link ex_timeout_parse ex_timeout_next ex_timeout_area
    by simp
qed

section \<open>The flat exporter computes the projection\<close>

lemma map_of_dict_without:
  "map_of (dict_without k d) k' = (if k' = k then None else map_of d k')"
  by (induction d) (auto simp: dict_without_def)

lemma dict_keys_dict_without:
  "set (dict_keys (dict_without k d)) = set (dict_keys d) - {k}"
  by (auto simp: dict_without_def dict_keys_def)

lemma dict_without_absent: "k \<notin> set (dict_keys d) \<Longrightarrow> dict_without k d = d"
  by (induction d) (auto simp: dict_without_def dict_keys_def)

lemma dict_without_dict_set_same: "dict_without k (dict_set k v d) = dict_without k d"
  by (induction d) (auto simp: dict_without_def)

lemma dict_without_dict_set_other:
  "k' \<noteq> k \<Longrightarrow> dict_without k (dict_set k' v d) = dict_set k' v (dict_without k d)"
  by (induction d) (auto simp: dict_without_def)

lemma dict_without_merge:
  "k \<notin> set (dict_keys b) \<Longrightarrow> dict_without k (dict_merge a b) = dict_merge (dict_without k a) b"
proof (induction b arbitrary: a)
  case Nil
  show ?case by (simp add: dict_merge_def)
next
  case (Cons p b)
  from Cons.prems have "fst p \<noteq> k" "k \<notin> set (dict_keys b)"
    by (auto simp: dict_keys_def)
  with Cons.IH [of "dict_set (fst p) (snd p) a"] show ?case
    by (simp add: dict_merge_def dict_without_dict_set_other)
qed

lemma map_of_dict_merge_absent:
  "k \<notin> set (dict_keys b) \<Longrightarrow> map_of (dict_merge a b) k = map_of a k"
proof (induction b arbitrary: a)
  case Nil
  show ?case by (simp add: dict_merge_def)
next
  case (Cons p b)
  from Cons.prems have "fst p \<noteq> k" "k \<notin> set (dict_keys b)"
    by (auto simp: dict_keys_def)
  with Cons.IH [of "dict_set (fst p) (snd p) a"] show ?case
    by (simp add: dict_merge_def map_of_dict_set)
qed

lemma dict_pop_without:
  "dict_pop k d =
     (case map_of d k of None \<Rightarrow> Inl KeyError | Some v \<Rightarrow> Inr (v, dict_without k d))"
  by (simp add: dict_pop_def dict_without_def split: option.splits)

lemma metadata_loop_dicts:
  "list_all is_dict xs \<Longrightarrow>
   metadata_loop category cols xs container =
     Inr (container @ map (\<lambda>x. flat_row cols (tag_item category x)) xs,
          map (tag_item category) xs)"
proof (induction xs arbitrary: container)
  case Nil
  show ?case by simp
next
  case (Cons x xs)
  from Cons.prems have "is_dict x" and xs: "list_all is_dict xs" by simp_all
  then obtain m where x: "x = PDict m"
    by (cases x) (simp_all add: is_dict_def)
  show ?case
    unfolding x by (simp add: Cons.IH [OF xs] tag_item_def flat_row_def Let_def)
qed

lemma py_iter_wf_category:
  "wf_category kv \<Longrightarrow> py_iter (snd kv) = Inr (list_items (snd kv))
     \<and> list_all is_dict (list_items (snd kv))
     \<and> updated_elements (snd kv) xs = PList xs"
  by (cases "snd kv") (auto simp: wf_category_def py_iter_def list_items_def updated_elements_def)

lemma items_loop_wf:
  "list_all wf_category cats \<Longrightarrow>
   items_loop cols cats container =
     Inr (container @ concat (map (category_rows cols) cats), map tag_category cats)"
proof (induction cats arbitrary: container)
  case Nil
  show ?case by simp
next
  case (Cons kv cats)
  from Cons.prems have kv: "wf_category kv" and cats: "list_all wf_category cats" by simp_all
  note it = py_iter_wf_category [OF kv]
  show ?case
    by (simp add: it metadata_loop_dicts Cons.IH [OF cats] category_rows_def tag_category_def)
qed

lemma issue_body_wf:
  assumes "wf_record r" and "''submissions'' \<notin> set (dict_keys metadata)"
  shows "issue_body metadata r container =
           Inr (container @ record_rows metadata r, metadata, tag_record r)"
proof -
  from assms(1) obtain i where r: "r = PDict i"
    by (cases r) (auto simp: wf_record_def)
  show ?thesis
  proof (cases "map_of i ''submissions''")
    case None
    then have "''submissions'' \<notin> set (dict_keys i)"
      by (simp add: set_dict_keys domIff)
    with None r show ?thesis
      by (simp add: issue_body_def py_contains_def record_rows_def tag_record_def)
  next
    case (Some v)
    with assms(1) r obtain cats where v: "v = PDict cats" and cats: "list_all wf_category cats"
      by (cases v) (auto simp: wf_record_def)
    from Some have key: "''submissions'' \<in> set (dict_keys i)"
      by (auto simp: set_dict_keys)
    have pop: "dict_pop ''submissions'' (dict_merge i metadata) =
        Inr (PDict cats, dict_without ''submissions'' (dict_merge i metadata))"
      using Some v assms(2) by (simp add: dict_pop_without map_of_dict_merge_absent)
    show ?thesis
      unfolding r issue_body_def
      using key pop assms(2) Some v
      by (simp add: py_contains_def items_loop_wf [OF cats] record_rows_def tag_record_def)
  qed
qed

lemma issues_loop_wf:
  "list_all wf_record rs \<Longrightarrow> ''submissions'' \<notin> set (dict_keys metadata) \<Longrightarrow>
   issues_loop metadata rs container =
     Inr (container @ concat (map (record_rows metadata) rs), metadata, map tag_record rs)"
proof (induction rs arbitrary: container)
  case Nil
  show ?case by simp
next
  case (Cons r rs)
  from Cons.prems have r: "wf_record r" and rs: "list_all wf_record rs" by simp_all
  show ?case
    by (simp add: issue_body_wf [OF r Cons.prems(2)] Cons.IH [OF rs Cons.prems(2)])
qed

lemma wf_aggregate_cases:
  assumes "wf_aggregate a"
  obtains d rs where "a = PDict d" and "map_of d ''submissions_data'' = Some (PList rs)"
    and "list_all wf_record rs" and "''submissions'' \<notin> set (dict_keys d)"
proof -
  from assms obtain d where d: "a = PDict d"
    by (cases a) (auto simp: wf_aggregate_def)
  with assms obtain v where v: "map_of d ''submissions_data'' = Some v"
    by (cases "map_of d ''submissions_data''") (auto simp: wf_aggregate_def)
  with assms d obtain rs where "v = PList rs" "list_all wf_record rs"
    by (cases v) (auto simp: wf_aggregate_def)
  with d v assms that show thesis by (auto simp: wf_aggregate_def)
qed

lemma write_to_csv_wf:
  assumes "wf_aggregate a"
  shows "write_to_csv a =
           Inr (flat_rows a, PDict (run_metadata a), PList (map tag_record (aggregate_records a)))"
proof -
  from assms obtain d rs where a: "a = PDict d"
    and rs: "map_of d ''submissions_data'' = Some (PList rs)"
    and wf: "list_all wf_record rs" and key: "''submissions'' \<notin> set (dict_keys d)"
    by (rule wf_aggregate_cases)
  from key have key': "''submissions'' \<notin> set (dict_keys (dict_without ''submissions_data'' d))"
    by (simp add: dict_keys_dict_without)
  show ?thesis
    unfolding a write_to_csv_def
    by (simp add: dict_pop_without rs py_iter_def issues_loop_wf [OF wf key']
        flat_rows_def run_metadata_def aggregate_records_def updated_elements_def)
qed

lemma length_record_rows: "length (record_rows metadata r) = length (record_subitems r)"
proof -
  have "length (concat (map (category_rows cols) cats)) =
        length (concat (map (\<lambda>kv. list_items (snd kv)) cats))" for cols cats
    by (induction cats) (simp_all add: category_rows_def)
  then show ?thesis
    by (auto simp: record_rows_def record_subitems_def record_submissions_def
        split: pyval.splits option.splits)
qed

lemma length_flat_rows: "length (flat_rows a) = nested_subitem_count a"
proof -
  have "length (concat (map (record_rows md) rs)) =
        sum_list (map (\<lambda>r. length (record_subitems r)) rs)" for md rs
    by (induction rs) (simp_all add: length_record_rows)
  then show ?thesis by (simp add: flat_rows_def nested_subitem_count_def)
qed

lemma list_all_dict_set:
  "list_all P d \<Longrightarrow> P (k, v) \<Longrightarrow> list_all P (dict_set k v d)"
  using set_dict_set_subset [of k v d] by (auto simp: list_all_iff)

lemma submission_item_is_dict: "submission_item url row = Inr x \<Longrightarrow> is_dict x"
  by (auto dest!: submission_item_result simp: is_dict_def)

lemma row_items_wf_category:
  assumes "row_items url rows items"
  shows "wf_category (k, PList items)"
proof -
  have "is_dict x" if "x \<in> set items" for x
  proof -
    from that obtain n where "n < length items" "items ! n = x"
      by (auto simp: in_set_conv_nth)
    with assms have "submission_item url (rows ! n) = Inr x"
      by (auto simp: row_items_def list_all2_conv_all_nth)
    then show ?thesis by (rule submission_item_is_dict)
  qed
  then show ?thesis by (simp add: wf_category_def list_all_iff)
qed

lemma sections_loop_wf:
  "sections_loop url secs subs = Inr subs' \<Longrightarrow> list_all wf_category subs \<Longrightarrow>
   list_all wf_category subs'"
proof (induction secs arbitrary: subs)
  case Nil
  then show ?case by simp
next
  case (Cons s secs)
  show ?case
  proof (cases "relevant_entity_type s")
    case None
    with Cons.prems have "sections_loop url secs subs = Inr subs'"
      by (simp only: sections_loop_dropped)
    then show ?thesis using Cons.IH Cons.prems(2) by blast
  next
    case (Some et)
    from sections_loop_kept [OF Some Cons.prems(1)] obtain rows items where
      "row_items url rows items"
      "sections_loop url secs (dict_set et (PList items) subs) = Inr subs'" by blast
    then show ?thesis
      using Cons.IH Cons.prems(2) list_all_dict_set row_items_wf_category by blast
  qed
qed

lemma parsed_record_wf:
  assumes "priv_parse_submissions d = Inr recs"
  shows "list_all wf_record recs"
proof -
  have "wf_record r" if "r \<in> set recs" for r
  proof -
    from parsed_record [OF assms that] obtain secs subs issue deadline title mandate where
      loop: "sections_loop (current_url (current_page d)) secs [] = Inr subs"
      and r: "r = PDict [(''issue'', issue), (''deadline'', deadline), (''title'', title),
                        (''mandate'', mandate), (''submissions'', PDict subs)]" by blast
    from sections_loop_wf [OF loop] have "list_all wf_category subs" by simp
    with r show ?thesis by (simp add: wf_record_def)
  qed
  then show ?thesis by (simp add: list_all_iff)
qed

lemma parse_submissions_wf:
  assumes "parse_submissions d now = Some (Inr a)"
  shows "wf_aggregate a"
proof -
  from assms obtain out where loop: "pages_loop d [] = Some (Inr out)"
    and a: "a = PDict [(''data_source'', PStr SUBMISSIONS_URL), (''collected_at'', PStr now),
                       (''submissions_data'', PList out)]"
    by (auto simp: parse_submissions_def split: option.splits sum.splits)
  from pages_loop_normal_end [OF loop] obtain ps P where
    P: "\<forall>n\<in>set ps. page_records d n = Inr (P n)" and out: "out = concat (map P ps)"
    by auto
  have "list_all wf_record (P n)" if "n \<in> set ps" for n
    using P that parsed_record_wf by (auto simp: page_records_def)
  then have "list_all wf_record out"
    unfolding out by (auto simp: list_all_iff)
  then show ?thesis
    by (simp add: a wf_aggregate_def dict_keys_def)
qed

lemma tag_item_twice: "tag_item c (tag_item c x) = tag_item c x"
  by (cases x) (simp_all add: tag_item_def dict_set_twice)

lemma category_rows_tag: "category_rows cols (tag_category kv) = category_rows cols kv"
  by (simp add: category_rows_def tag_category_def list_items_def tag_item_twice)

lemma tag_category_twice: "tag_category (tag_category kv) = tag_category kv"
  by (simp add: tag_category_def list_items_def tag_item_twice)

lemma wf_category_tag: "wf_category kv \<Longrightarrow> wf_category (tag_category kv)"
  by (cases "snd kv")
     (auto simp: wf_category_def tag_category_def list_items_def list_all_iff tag_item_def
        is_dict_def split: pyval.splits)

lemma tag_record_twice: "tag_record (tag_record r) = tag_record r"
  by (auto simp: tag_record_def map_of_dict_set dict_set_twice tag_category_twice comp_def
      split: pyval.splits option.splits)

lemma wf_record_tag: "wf_record r \<Longrightarrow> wf_record (tag_record r)"
  by (auto simp: wf_record_def tag_record_def map_of_dict_set list_all_iff wf_category_tag
      split: pyval.splits option.splits)

lemma record_rows_tag:
  "''submissions'' \<notin> set (dict_keys metadata) \<Longrightarrow>
   record_rows metadata (tag_record r) = record_rows metadata r"
  by (auto simp: record_rows_def tag_record_def map_of_dict_set dict_without_merge
      dict_without_dict_set_same category_rows_tag comp_def
      split: pyval.splits option.splits)

lemma dict_without_twice: "dict_without k (dict_without k d) = dict_without k d"
  by (simp add: dict_without_def)

lemma write_to_csv_consumed:
  assumes "wf_aggregate a"
  shows "write_to_csv (PDict (run_metadata a)) = Inl KeyError"
proof -
  from assms obtain d where "a = PDict d" by (rule wf_aggregate_cases)
  then show ?thesis
    by (simp add: write_to_csv_def run_metadata_def dict_pop_without map_of_dict_without)
qed

lemma write_to_csv_restored:
  assumes "wf_aggregate a"
  shows "write_to_csv (PDict (dict_set ''submissions_data''
                                (PList (map tag_record (aggregate_records a))) (run_metadata a)))
         = Inr (flat_rows a, PDict (run_metadata a), PList (map tag_record (aggregate_records a)))"
proof -
  from assms obtain d rs where a: "a = PDict d"
    and rs: "map_of d ''submissions_data'' = Some (PList rs)"
    and wf: "list_all wf_record rs" and key: "''submissions'' \<notin> set (dict_keys d)"
    by (rule wf_aggregate_cases)
  let ?md = "dict_without ''submissions_data'' d"
  let ?b = "PDict (dict_set ''submissions_data'' (PList (map tag_record rs)) ?md)"
  have key': "''submissions'' \<notin> set (dict_keys ?md)"
    using key by (simp add: dict_keys_dict_without)
  have md: "run_metadata ?b = ?md"
    by (simp add: run_metadata_def dict_without_dict_set_same dict_without_twice)
  have recs: "aggregate_records ?b = map tag_record rs"
    by (simp add: aggregate_records_def map_of_dict_set)
  have "wf_aggregate ?b"
    using key' wf
    by (simp add: wf_aggregate_def dict_keys_dict_set map_of_dict_set list_all_iff wf_record_tag)
  from write_to_csv_wf [OF this] have
    "write_to_csv ?b = Inr (flat_rows ?b, PDict ?md, PList (map tag_record (map tag_record rs)))"
    by (simp add: md recs)
  moreover have "flat_rows ?b = flat_rows a"
  proof -
    have "flat_rows ?b = concat (map (record_rows ?md) (map tag_record rs))"
      unfolding flat_rows_def md recs ..
    also have "\<dots> = concat (map (record_rows ?md) rs)"
      using key' by (simp add: comp_def record_rows_tag)
    also have "\<dots> = flat_rows a"
      by (simp add: flat_rows_def a run_metadata_def aggregate_records_def rs)
    finally show ?thesis .
  qed
  moreover have "map tag_record (map tag_record rs) = map tag_record rs"
    by (simp add: tag_record_twice)
  ultimately show ?thesis
    by (simp add: a run_metadata_def aggregate_records_def rs)
qed

lemma ex_aggregate_wf: "wf_aggregate ex_aggregate"
  by code_simp

lemma ex_aggregate_csv:
  "write_to_csv ex_aggregate = Inr ([ex_flat_row], ex_metadata, PList [ex_tagged_record])"
  by code_simp

lemma ex_aggregate_metadata: "run_metadata ex_aggregate = [(''data_source'', PStr SUBMISSIONS_URL),
            (''collected_at'', PStr ''04-11-2026 10:00:00'')]"
  by code_simp

lemma ex_driver_aggregate:
  "parse_submissions ex_driver ''04-11-2026 10:00:00'' = Some (Inr ex_aggregate)"
  by code_simp

section \<open>The exporters: what they leave and what they write\<close>

text \<open>
  C5, as the claim states it, fails: \<open>write_to_csv\<close> leaves the aggregate without its
  \<open>submissions_data\<close> and the sub-item of the record with a new key \<open>entity_type\<close>;
  with the two exporters in the other order the nested document holds the two
  metadata fields only.
\<close>

theorem flat_export_mutates_counterexample:
  "write_to_csv ex_aggregate = Inr ([ex_flat_row], ex_metadata, PList [ex_tagged_record])
   \<and> ex_metadata \<noteq> ex_aggregate
   \<and> ex_tagged_record \<noteq> ex_record
   \<and> export_json_then_csv ex_aggregate = Inr (ex_aggregate, [ex_flat_row], ex_metadata)
   \<and> export_csv_then_json ex_aggregate = Inr (ex_metadata, [ex_flat_row], ex_metadata)"
  using ex_aggregate_csv
  by (simp add: export_json_then_csv_def export_csv_then_json_def write_to_json_def
      ex_metadata_def ex_aggregate_def ex_tagged_record_def ex_record_def ex_item_def)

text \<open>
  C5, amended. \<open>write_to_json\<close> leaves the aggregate as it is. \<open>write_to_csv\<close>
  leaves the aggregate without the key \<open>submissions_data\<close> (its other fields as they
  were) and the record list with \<open>entity_type\<close> stored in every sub-item (the
  records' other fields as they were). In the order of \<open>main\<close> the nested document is
  the whole aggregate; in the other order the rows are the same and the nested
  document is the aggregate without \<open>submissions_data\<close>.
\<close>

theorem exporters_effect_on_aggregate:
  assumes "wf_aggregate a"
  shows "write_to_json a = (a, a)
     \<and> write_to_csv a =
         Inr (flat_rows a, PDict (run_metadata a), PList (map tag_record (aggregate_records a)))
     \<and> export_json_then_csv a = Inr (a, flat_rows a, PDict (run_metadata a))
     \<and> export_csv_then_json a = Inr (PDict (run_metadata a), flat_rows a, PDict (run_metadata a))"
  by (simp add: write_to_csv_wf [OF assms] export_json_then_csv_def export_csv_then_json_def
      write_to_json_def)

theorem exporters_effect_on_aggregate_witness:
  "wf_aggregate ex_aggregate
   \<and> write_to_json ex_aggregate = (ex_aggregate, ex_aggregate)
   \<and> write_to_csv ex_aggregate =
       Inr (flat_rows ex_aggregate, PDict (run_metadata ex_aggregate),
            PList (map tag_record (aggregate_records ex_aggregate)))
   \<and> export_json_then_csv ex_aggregate =
       Inr (ex_aggregate, flat_rows ex_aggregate, PDict (run_metadata ex_aggregate))
   \<and> export_csv_then_json ex_aggregate =
       Inr (PDict (run_metadata ex_aggregate), flat_rows ex_aggregate,
            PDict (run_metadata ex_aggregate))
   \<and> PDict (run_metadata ex_aggregate) = ex_metadata"
  using exporters_effect_on_aggregate [OF ex_aggregate_wf] ex_aggregate_wf ex_aggregate_metadata
  by (simp add: ex_metadata_def)

text \<open>
  C6, as the claim states it, fails: a second run of \<open>write_to_csv\<close> on the aggregate
  the first run was given raises \<open>KeyError\<close>, since the first run popped
  \<open>submissions_data\<close>.
\<close>

theorem second_flat_export_counterexample:
  "write_to_csv ex_aggregate = Inr ([ex_flat_row], ex_metadata, PList [ex_tagged_record])
   \<and> write_to_csv ex_metadata = Inl KeyError"
proof -
  have "write_to_csv ex_metadata = Inl KeyError" by code_simp
  with ex_aggregate_csv show ?thesis by simp
qed

text \<open>
  C6, amended. The rows of a run are the projection of the aggregate it was given:
  the rows of its records in order, of each record's categories in order, of each
  category's sub-items in order. A second run on the aggregate as the first run left
  it raises \<open>KeyError\<close>; once the record list as the first run left it is bound to
  \<open>submissions_data\<close> again, a second run gives the same rows and leaves the same
  objects.
\<close>

theorem flat_export_repeatable_after_restore:
  assumes "wf_aggregate a" and "write_to_csv a = Inr (rows, a', recs')"
  shows "rows = flat_rows a
     \<and> write_to_csv a' = Inl KeyError
     \<and> (\<exists>md. a' = PDict md
           \<and> write_to_csv (PDict (dict_set ''submissions_data'' recs' md)) = Inr (rows, a', recs'))"
proof -
  from assms(2) write_to_csv_wf [OF assms(1)] have
    eq: "rows = flat_rows a" "a' = PDict (run_metadata a)"
        "recs' = PList (map tag_record (aggregate_records a))" by simp_all
  show ?thesis
    unfolding eq
    using write_to_csv_consumed [OF assms(1)] write_to_csv_restored [OF assms(1)] by simp
qed

theorem flat_export_repeatable_after_restore_witness:
  "wf_aggregate ex_aggregate
   \<and> write_to_csv ex_aggregate = Inr ([ex_flat_row], ex_metadata, PList [ex_tagged_record])
   \<and> [ex_flat_row] = flat_rows ex_aggregate
   \<and> write_to_csv ex_metadata = Inl KeyError
   \<and> (\<exists>md. ex_metadata = PDict md
         \<and> write_to_csv (PDict (dict_set ''submissions_data'' (PList [ex_tagged_record]) md))
             = Inr ([ex_flat_row], ex_metadata, PList [ex_tagged_record]))"
  using flat_export_repeatable_after_restore [OF ex_aggregate_wf ex_aggregate_csv]
    ex_aggregate_wf ex_aggregate_csv
  by blast

text \<open>
  C7. For an aggregate of the shape \<open>parse_submissions\<close> builds (lemma
  \<open>parse_submissions_wf\<close>), the two exports of \<open>main\<close> succeed, and the number of
  sub-items in the nested document, over all records and categories, is the number
  of rows of the flat export.
\<close>

theorem nested_count_equals_flat_rows:
  assumes "wf_aggregate a"
  shows "\<exists>doc rows a'. export_json_then_csv a = Inr (doc, rows, a')
           \<and> nested_subitem_count doc = length rows"
  by (simp add: export_json_then_csv_def write_to_json_def write_to_csv_wf [OF assms]
      length_flat_rows)

theorem nested_count_equals_flat_rows_witness:
  "parse_submissions ex_driver ''04-11-2026 10:00:00'' = Some (Inr ex_aggregate)
   \<and> wf_aggregate ex_aggregate
   \<and> (\<exists>doc rows a'. export_json_then_csv ex_aggregate = Inr (doc, rows, a')
           \<and> nested_subitem_count doc = length rows)
   \<and> export_json_then_csv ex_aggregate = Inr (ex_aggregate, [ex_flat_row], ex_metadata)
   \<and> nested_subitem_count ex_aggregate = 1"
proof -
  have a: "export_json_then_csv ex_aggregate = Inr (ex_aggregate, [ex_flat_row], ex_metadata)"
    using ex_aggregate_csv by (simp add: export_json_then_csv_def write_to_json_def)
  from nested_count_equals_flat_rows [OF ex_aggregate_wf] a
  have "nested_subitem_count ex_aggregate = 1" by simp
  with nested_count_equals_flat_rows [OF ex_aggregate_wf] a ex_aggregate_wf ex_driver_aggregate
  show ?thesis by simp
qed

text \<open>
  C10. Every record that \<open>_parse_submissions\<close> returns is a dictionary with the key
  \<open>submissions\<close>, bound to a dictionary, so the test \<open>"submissions" in issue\<close> of
  \<open>write_to_csv\<close> holds for it; with the run metadata of \<open>parse_submissions\<close> the
  loop body adds as many rows as the record has sub-items, so it adds none exactly
  when every category of the record has an empty list (or there is no category).
\<close>

theorem parsed_record_has_submissions:
  assumes "priv_parse_submissions d = Inr recs" and "r \<in> set recs"
    and "metadata = [(''data_source'', PStr SUBMISSIONS_URL), (''collected_at'', PStr now)]"
  shows "py_contains ''submissions'' r = Inr True
     \<and> (\<exists>subs rows r'.
           record_submissions r = Some subs
           \<and> issue_body metadata r container = Inr (container @ rows, metadata, r')
           \<and> length rows = length (record_subitems r)
           \<and> (rows = [] \<longleftrightarrow> list_all (\<lambda>kv. list_items (snd kv) = []) subs))"
proof -
  from parsed_record [OF assms(1,2)] obtain subs issue deadline title mandate where
    r: "r = PDict [(''issue'', issue), (''deadline'', deadline), (''title'', title),
                   (''mandate'', mandate), (''submissions'', PDict subs)]" by blast
  have wf: "wf_record r"
    using parsed_record_wf [OF assms(1)] assms(2) by (simp add: list_all_iff)
  have key: "''submissions'' \<notin> set (dict_keys metadata)"
    by (simp add: assms(3) dict_keys_def)
  have len: "length (record_rows metadata r) = length (record_subitems r)"
    by (rule length_record_rows)
  have "record_subitems r = [] \<longleftrightarrow> list_all (\<lambda>kv. list_items (snd kv) = []) subs"
    by (simp add: r record_subitems_def list_all_iff)
  with len have "record_rows metadata r = [] \<longleftrightarrow> list_all (\<lambda>kv. list_items (snd kv) = []) subs"
    by (metis length_0_conv)
  moreover have "py_contains ''submissions'' r = Inr True"
    by (simp add: r py_contains_def dict_keys_def)
  moreover have "record_submissions r = Some subs" by (simp add: r)
  ultimately show ?thesis
    using issue_body_wf [OF wf key, of container] len by blast
qed

theorem parsed_record_has_submissions_witness:
  "priv_parse_submissions ex_driver = Inr [ex_record] \<and> ex_record \<in> set [ex_record]
   \<and> py_contains ''submissions'' ex_record = Inr True
   \<and> (\<exists>subs rows r'.
         record_submissions ex_record = Some subs
         \<and> issue_body [(''data_source'', PStr SUBMISSIONS_URL),
                        (''collected_at'', PStr ''04-11-2026 10:00:00'')] ex_record []
             = Inr ([] @ rows,
                    [(''data_source'', PStr SUBMISSIONS_URL),
                     (''collected_at'', PStr ''04-11-2026 10:00:00'')], r')
         \<and> length rows = length (record_subitems ex_record)
         \<and> (rows = [] \<longleftrightarrow> list_all (\<lambda>kv. list_items (snd kv) = []) subs))"
proof -
  have a: "ex_record \<in> set [ex_record]" by simp
  from parsed_record_has_submissions [OF ex_driver_parse a refl, of "''04-11-2026 10:00:00''" "[]"]
  show ?thesis using ex_driver_parse a by simp
qed

end
